theory Spec2Isabelle
  imports Main "HOL-Library.AList" "HOL-Library.Char_ord" "HOL-Library.List_Lexorder"
begin

section \<open>Path names (\<open>os.path\<close> on a POSIX system)\<close>

text \<open>
  Python strings are modelled as HOL strings. The three functions below follow
  \<open>posixpath.basename\<close>, \<open>posixpath.dirname\<close> and \<open>posixpath.join\<close>:
  \<^item> \<open>basename p\<close> is \<open>p[p.rfind('/') + 1:]\<close>;
  \<^item> \<open>dirname p\<close> is \<open>p[:p.rfind('/') + 1]\<close>, with trailing separators stripped unless
    the head consists of separators only;
  \<^item> \<open>join a b\<close> restarts at \<open>b\<close> when \<open>b\<close> is absolute, and otherwise inserts a
    separator unless \<open>a\<close> is empty or already ends with one.
\<close>

definition basename :: "string \<Rightarrow> string" where
  "basename p = rev (takeWhile (\<lambda>c. c \<noteq> CHR ''/'') (rev p))"

definition rstrip_sep :: "string \<Rightarrow> string" where
  "rstrip_sep p = rev (dropWhile (\<lambda>c. c = CHR ''/'') (rev p))"

definition dirname :: "string \<Rightarrow> string" where
  "dirname p =
     (let head = rev (dropWhile (\<lambda>c. c \<noteq> CHR ''/'') (rev p))
      in if head \<noteq> [] \<and> \<not> list_all (\<lambda>c. c = CHR ''/'') head
         then rstrip_sep head else head)"

definition join :: "string \<Rightarrow> string \<Rightarrow> string" where
  "join a b =
     (if b \<noteq> [] \<and> hd b = CHR ''/'' then b
      else if a = [] \<or> last a = CHR ''/'' then a @ b
      else a @ ''/'' @ b)"

text \<open>\<open>name.split(os.sep)\<close>: every separator cuts, empty pieces are kept.\<close>

fun split_sep :: "string \<Rightarrow> string list" where
  "split_sep [] = [[]]"
| "split_sep (c # cs) =
     (if c = CHR ''/'' then [] # split_sep cs
      else (case split_sep cs of
              [] \<Rightarrow> [[c]]
            | w # ws \<Rightarrow> (c # w) # ws))"

section \<open>Errors\<close>

text \<open>
  Every exception that the modelled code can raise is a value. \<open>OSError n\<close> carries the
  \<open>errno\<close> the source inspects (17 is \<open>EEXIST\<close>, 2 \<open>ENOENT\<close>, 20 \<open>ENOTDIR\<close>,
  21 \<open>EISDIR\<close>, 22 \<open>EINVAL\<close>, 39 \<open>ENOTEMPTY\<close>).
\<close>

datatype error =
    DuplicateSectionError string
  | NoSectionError string
  | NoOptionError string string
  | ValueError
  | InterpolationDepthError
  | InterpolationSyntaxError
  | InterpolationMissingOptionError string
  | ParsingError
  | OSError nat
  | SameFileError
  | TypeError
  | AttributeError
  | FolderError

section \<open>The registry object (\<open>configparser.ConfigParser\<close>)\<close>

text \<open>
  The module keeps one \<open>ConfigParser()\<close> per folder. Its state is the dictionary of
  sections (each a dictionary from option name to value) and the dictionary of
  defaults; the reserved section name is \<open>DEFAULT\<close>, interpolation is the default
  \<open>BasicInterpolation\<close>, and option names pass through \<open>optionxform\<close> (lower case).
\<close>

record registry =
  sections :: "string \<rightharpoonup> (string \<rightharpoonup> string)"
  defaults :: "string \<rightharpoonup> string"

definition empty_registry :: registry where
  "empty_registry = \<lparr>sections = Map.empty, defaults = Map.empty\<rparr>"

definition default_section :: string where
  "default_section = ''DEFAULT''"

definition MAX_INTERPOLATION_DEPTH :: nat where
  "MAX_INTERPOLATION_DEPTH = 10"

definition lower_char :: "char \<Rightarrow> char" where
  "lower_char c =
     (let n = (of_char c :: nat)
      in if 65 \<le> n \<and> n \<le> 90 then char_of (n + 32) else c)"

definition optionxform :: "string \<Rightarrow> string" where
  "optionxform s = map lower_char s"

definition has_section :: "registry \<Rightarrow> string \<Rightarrow> bool" where
  "has_section r s = (sections r s \<noteq> None)"

definition add_section :: "registry \<Rightarrow> string \<Rightarrow> error + registry" where
  "add_section r s =
     (if s = default_section then Inl ValueError
      else if sections r s \<noteq> None then Inl (DuplicateSectionError s)
      else Inr (r\<lparr>sections := (sections r)(s \<mapsto> Map.empty)\<rparr>))"

definition remove_section :: "registry \<Rightarrow> string \<Rightarrow> registry" where
  "remove_section r s = r\<lparr>sections := (sections r)(s := None)\<rparr>"

text \<open>
  The regular expression \<open>%\(([^)]+)\)s\<close> matched at the head of a string: the result
  is the captured name and what follows the match.
\<close>

definition keycre_match :: "string \<Rightarrow> (string \<times> string) option" where
  "keycre_match s =
     (if take 2 s = ''%(''
      then (let var = takeWhile (\<lambda>c. c \<noteq> CHR '')'') (drop 2 s);
                after = dropWhile (\<lambda>c. c \<noteq> CHR '')'') (drop 2 s)
            in if var \<noteq> [] \<and> take 2 after = '')s'' then Some (var, drop 2 after)
               else None)
      else None)"

lemma keycre_match_shorter:
  "keycre_match s = Some (v, r) \<Longrightarrow> length r < length s"
proof -
  assume a: "keycre_match s = Some (v, r)"
  have "length (dropWhile (\<lambda>c. c \<noteq> CHR '')'') (drop 2 s)) \<le> length (drop 2 s)"
    by (rule length_dropWhile_le)
  moreover from a have "take 2 s = ''%(''"
    by (auto simp: keycre_match_def split: if_splits)
  then have "2 \<le> length s"
    by (cases s; cases "tl s") auto
  moreover from a have "r = drop 2 (dropWhile (\<lambda>c. c \<noteq> CHR '')'') (drop 2 s))"
    by (auto simp: keycre_match_def Let_def split: if_splits)
  ultimately show ?thesis by simp
qed

text \<open>\<open>value.replace('%%', '')\<close> and \<open>_KEYCRE.sub('', value)\<close>.\<close>

fun remove_escaped :: "string \<Rightarrow> string" where
  "remove_escaped (a # b # r) =
     (if a = CHR ''%'' \<and> b = CHR ''%'' then remove_escaped r
      else a # remove_escaped (b # r))"
| "remove_escaped s = s"

function remove_keys :: "string \<Rightarrow> string" where
  "remove_keys s =
     (case s of
        [] \<Rightarrow> []
      | c # cs \<Rightarrow> (case keycre_match s of
                     Some (v, r) \<Rightarrow> remove_keys r
                   | None \<Rightarrow> c # remove_keys cs))"
  by pat_completeness auto
termination
  by (relation "measure length") (auto dest: keycre_match_shorter)

declare remove_keys.simps [simp del]

definition before_set :: "string \<Rightarrow> error + string" where
  "before_set v =
     (if CHR ''%'' \<in> set (remove_keys (remove_escaped v)) then Inl ValueError
      else Inr v)"

lemma drop2_dropWhile_shorter:
  "rest \<noteq> [] \<Longrightarrow> length (drop 2 (dropWhile P rest)) < length rest"
proof -
  assume "rest \<noteq> []"
  then have "0 < length rest" by simp
  moreover have "length (dropWhile P rest) \<le> length rest"
    by (rule length_dropWhile_le)
  ultimately show ?thesis
    unfolding length_drop by arith
qed

text \<open>
  \<open>BasicInterpolation._interpolate_some\<close>. The source checks the depth once on entry and
  then loops over \<open>rest\<close>; here the continuation of the loop is a recursive call at the
  same depth, which passes the same check again.
\<close>

function interpolate_some ::
  "(string \<rightharpoonup> string) \<Rightarrow> nat \<Rightarrow> string \<Rightarrow> error + string" where
  "interpolate_some m depth rest =
     (if depth > MAX_INTERPOLATION_DEPTH then Inl InterpolationDepthError
      else if rest = [] then Inr []
      else
        (let pre = takeWhile (\<lambda>c. c \<noteq> CHR ''%'') rest;
             r = dropWhile (\<lambda>c. c \<noteq> CHR ''%'') rest
         in if r = [] then Inr rest
            else if take 1 (tl r) = ''%''
            then (case interpolate_some m depth (drop 2 r) of
                    Inl e \<Rightarrow> Inl e
                  | Inr out \<Rightarrow> Inr (pre @ ''%'' @ out))
            else if take 1 (tl r) = ''(''
            then (case keycre_match r of
                    None \<Rightarrow> Inl InterpolationSyntaxError
                  | Some (var, r') \<Rightarrow>
                      (case m (optionxform var) of
                         None \<Rightarrow> Inl (InterpolationMissingOptionError (optionxform var))
                       | Some v \<Rightarrow>
                           (case (if CHR ''%'' \<in> set v
                                  then interpolate_some m (depth + 1) v
                                  else Inr v) of
                              Inl e \<Rightarrow> Inl e
                            | Inr out1 \<Rightarrow>
                                (case interpolate_some m depth r' of
                                   Inl e \<Rightarrow> Inl e
                                 | Inr out2 \<Rightarrow> Inr (pre @ out1 @ out2)))))
            else Inl InterpolationSyntaxError))"
  by pat_completeness auto
termination
proof (relation "inv_image (less_than <*lex*> less_than)
                   (\<lambda>(m, d, r). (Suc MAX_INTERPOLATION_DEPTH - d, length r))", goal_cases)
  case 1
  show ?case by (intro wf_inv_image wf_lex_prod wf_less_than)
next
  case (2 m depth rest pre r)
  then have "length (drop 2 r) < length rest"
    using drop2_dropWhile_shorter [of rest "\<lambda>c. c \<noteq> CHR ''%''"] by blast
  then show ?case by simp
next
  case (3 m depth rest pre r x2 var r' v)
  then show ?case by auto
next
  case (4 m depth rest pre r x2 var r' v y)
  have "length (dropWhile (\<lambda>c. c \<noteq> CHR ''%'') rest) \<le> length rest"
    by (rule length_dropWhile_le)
  moreover from 4 have "length r' < length r"
    by (auto dest: keycre_match_shorter)
  ultimately have "length r' < length rest"
    using 4 by simp
  then show ?case by simp
qed

declare interpolate_some.simps [simp del]

definition before_get :: "(string \<rightharpoonup> string) \<Rightarrow> string \<Rightarrow> error + string" where
  "before_get m v = interpolate_some m 1 v"

text \<open>
  \<open>RawConfigParser.set\<close>: the value is validated unless empty; the empty section name
  and \<open>DEFAULT\<close> address the defaults; any other name must be a section.
\<close>

definition cp_set :: "registry \<Rightarrow> string \<Rightarrow> string \<Rightarrow> string \<Rightarrow> error + registry" where
  "cp_set r s opt v =
     (case (if v \<noteq> [] then before_set v else Inr v) of
        Inl e \<Rightarrow> Inl e
      | Inr v' \<Rightarrow>
          (if s = [] \<or> s = default_section
           then Inr (r\<lparr>defaults := (defaults r)(optionxform opt \<mapsto> v')\<rparr>)
           else (case sections r s of
                   None \<Rightarrow> Inl (NoSectionError s)
                 | Some d \<Rightarrow>
                     Inr (r\<lparr>sections := (sections r)(s \<mapsto> d(optionxform opt \<mapsto> v'))\<rparr>))))"

text \<open>
  \<open>RawConfigParser.get\<close> without \<open>raw\<close>, \<open>vars\<close> or \<open>fallback\<close>: the option is looked up
  in the section and then in the defaults (\<open>_unify_values\<close>), and interpolated.
\<close>

definition unify_values :: "registry \<Rightarrow> string \<Rightarrow> error + (string \<rightharpoonup> string)" where
  "unify_values r s =
     (case sections r s of
        None \<Rightarrow> (if s \<noteq> default_section then Inl (NoSectionError s)
                 else Inr (defaults r))
      | Some d \<Rightarrow> Inr (defaults r ++ d))"

definition cp_get :: "registry \<Rightarrow> string \<Rightarrow> string \<Rightarrow> error + string" where
  "cp_get r s opt =
     (case unify_values r s of
        Inl e \<Rightarrow> Inl e
      | Inr d \<Rightarrow>
          (case d (optionxform opt) of
             None \<Rightarrow> Inl (NoOptionError (optionxform opt) s)
           | Some v \<Rightarrow> before_get d v))"

text \<open>
  \<open>ConfigParser.read\<close> merges what a file holds into the parser: sections of the file
  are added or extended, options of the file win.
\<close>

definition read_into :: "registry \<Rightarrow> registry \<Rightarrow> registry" where
  "read_into r file =
     \<lparr>sections = (\<lambda>s. case sections file s of
                          None \<Rightarrow> sections r s
                        | Some d' \<Rightarrow>
                            Some ((case sections r s of None \<Rightarrow> Map.empty | Some d \<Rightarrow> d) ++ d')),
      defaults = defaults r ++ defaults file\<rparr>"

section \<open>The file system\<close>

text \<open>
  The directory tree is a finite association list from path names to nodes, keyed by the
  path strings as the module builds them with \<open>os.path.join\<close>. Different spellings of
  one path (doubled or trailing separators, \<open>.\<close>, \<open>..\<close>, symbolic links) are not
  identified, and permissions are not modelled. The parent of a path is its \<open>dirname\<close>;
  the empty \<open>dirname\<close> is the current directory, which always exists.

  A regular file holds either the text of a form document or a registry written by
  \<open>ConfigParser.write\<close>. The INI text format itself is abstracted: a file written from a
  registry reads back as that registry. Any other non-empty file is rejected by the INI
  parser (a form document is XML and has no section header).
\<close>

datatype content = Msg string | Reg registry

datatype node = Dir | File content

type_synonym filesystem = "(string \<times> node) list"

definition is_Dir :: "node \<Rightarrow> bool" where
  "is_Dir n = (case n of Dir \<Rightarrow> True | File c \<Rightarrow> False)"

definition lookup :: "filesystem \<Rightarrow> string \<Rightarrow> node option" where
  "lookup fs p = map_of fs p"

definition os_path_exists :: "filesystem \<Rightarrow> string \<Rightarrow> bool" where
  "os_path_exists fs p = (case lookup fs p of None \<Rightarrow> False | Some n \<Rightarrow> True)"

definition os_path_isdir :: "filesystem \<Rightarrow> string \<Rightarrow> bool" where
  "os_path_isdir fs p = (case lookup fs p of Some Dir \<Rightarrow> True | _ \<Rightarrow> False)"

definition os_path_isfile :: "filesystem \<Rightarrow> string \<Rightarrow> bool" where
  "os_path_isfile fs p = (case lookup fs p of Some (File c) \<Rightarrow> True | _ \<Rightarrow> False)"

text \<open>The \<open>errno\<close> of a path whose parent directory cannot hold a new entry.\<close>

definition parent_errno :: "filesystem \<Rightarrow> string \<Rightarrow> nat option" where
  "parent_errno fs p =
     (if p = [] then Some 2
      else if dirname p = [] then None
      else (case lookup fs (dirname p) of
              Some Dir \<Rightarrow> None
            | Some (File c) \<Rightarrow> Some 20
            | None \<Rightarrow> Some 2))"

definition os_mkdir :: "filesystem \<Rightarrow> string \<Rightarrow> error + filesystem" where
  "os_mkdir fs p =
     (if os_path_exists fs p then Inl (OSError 17)
      else (case parent_errno fs p of
              Some n \<Rightarrow> Inl (OSError n)
            | None \<Rightarrow> Inr (AList.update p Dir fs)))"

text \<open>\<open>open(p, "w")\<close>, one \<open>write\<close> of the whole content, \<open>close\<close>.\<close>

definition write_file :: "filesystem \<Rightarrow> string \<Rightarrow> content \<Rightarrow> error + filesystem" where
  "write_file fs p c =
     (case lookup fs p of
        Some Dir \<Rightarrow> Inl (OSError 21)
      | Some (File old) \<Rightarrow> Inr (AList.update p (File c) fs)
      | None \<Rightarrow> (case parent_errno fs p of
                   Some n \<Rightarrow> Inl (OSError n)
                 | None \<Rightarrow> Inr (AList.update p (File c) fs)))"

definition os_remove :: "filesystem \<Rightarrow> string \<Rightarrow> error + filesystem" where
  "os_remove fs p =
     (case lookup fs p of
        None \<Rightarrow> Inl (OSError 2)
      | Some Dir \<Rightarrow> Inl (OSError 21)
      | Some (File c) \<Rightarrow> Inr (AList.delete p fs))"

definition is_below :: "string \<Rightarrow> string \<Rightarrow> bool" where
  "is_below d k = (take (Suc (length d)) k = d @ ''/'')"

definition os_rmdir :: "filesystem \<Rightarrow> string \<Rightarrow> error + filesystem" where
  "os_rmdir fs p =
     (case lookup fs p of
        None \<Rightarrow> Inl (OSError 2)
      | Some (File c) \<Rightarrow> Inl (OSError 20)
      | Some Dir \<Rightarrow>
          if list_ex (\<lambda>(k, v). is_below p k) fs then Inl (OSError 39)
          else Inr (AList.delete p fs))"

text \<open>
  \<open>os.makedirs(name)\<close> with \<open>exist_ok=False\<close>: the missing ancestors are made first
  (an ancestor that appeared meanwhile is tolerated), then the leaf.
\<close>

lemma length_dirname_basename: "length (dirname p) + length (basename p) \<le> length p"
proof -
  let ?P = "\<lambda>c. c \<noteq> CHR ''/''"
  have "length (takeWhile ?P (rev p)) + length (dropWhile ?P (rev p)) = length p"
    by (metis length_append length_rev takeWhile_dropWhile_id)
  moreover have "length (dirname p) \<le> length (dropWhile ?P (rev p))"
    by (simp add: dirname_def rstrip_sep_def Let_def length_dropWhile_le)
  ultimately show ?thesis by (simp add: basename_def)
qed

function os_makedirs :: "filesystem \<Rightarrow> string \<Rightarrow> error + filesystem" where
  "os_makedirs fs nm =
     (let head = (if basename nm = [] then dirname (dirname nm) else dirname nm);
          tail = (if basename nm = [] then basename (dirname nm) else basename nm)
      in if head \<noteq> [] \<and> tail \<noteq> [] \<and> \<not> os_path_exists fs head
         then (case os_makedirs fs head of
                 Inl (OSError n) \<Rightarrow>
                   (if n = 17
                    then (if tail = ''.'' then Inr fs else os_mkdir fs nm)
                    else Inl (OSError n))
               | Inl e \<Rightarrow> Inl e
               | Inr fs' \<Rightarrow> (if tail = ''.'' then Inr fs' else os_mkdir fs' nm))
         else os_mkdir fs nm)"
  by pat_completeness auto
termination
proof (relation "measure (\<lambda>(fs, nm). length nm)", goal_cases)
  case 1
  show ?case by simp
next
  case (2 fs nm head tail)
  have a: "length (dirname nm) + length (basename nm) \<le> length nm"
    by (rule length_dirname_basename)
  have b: "length (dirname (dirname nm)) + length (basename (dirname nm)) \<le> length (dirname nm)"
    by (rule length_dirname_basename)
  have "length head < length nm"
  proof (cases "basename nm = []")
    case True
    with 2 have h: "head = dirname (dirname nm)"
      and t: "0 < length (basename (dirname nm))"
      by simp_all
    from a b t show ?thesis unfolding h by linarith
  next
    case False
    with 2 have h: "head = dirname nm" and t: "0 < length (basename nm)"
      by simp_all
    from a t show ?thesis unfolding h by linarith
  qed
  then show ?case by simp
qed

declare os_makedirs.simps [simp del]

text \<open>
  \<open>os.rename\<close> moves a node together with everything below it. The target may be
  replaced when it is a regular file (for a file) or an empty directory (for a
  directory); a directory cannot be moved below itself.
\<close>

definition rekey :: "string \<Rightarrow> string \<Rightarrow> string \<Rightarrow> string" where
  "rekey src dst k =
     (if k = src then dst
      else if is_below src k then dst @ drop (length src) k
      else k)"

definition os_rename :: "filesystem \<Rightarrow> string \<Rightarrow> string \<Rightarrow> error + filesystem" where
  "os_rename fs src dst =
     (case lookup fs src of
        None \<Rightarrow> Inl (OSError 2)
      | Some n \<Rightarrow>
          if src = dst then Inr fs
          else if is_Dir n \<and> is_below src dst then Inl (OSError 22)
          else
            (case lookup fs dst of
               None \<Rightarrow>
                 (case parent_errno fs dst of
                    Some e \<Rightarrow> Inl (OSError e)
                  | None \<Rightarrow> Inr (map (\<lambda>(k, v). (rekey src dst k, v)) fs))
             | Some Dir \<Rightarrow>
                 if \<not> is_Dir n then Inl (OSError 21)
                 else if list_ex (\<lambda>(k, v). is_below dst k) fs then Inl (OSError 39)
                 else Inr (map (\<lambda>(k, v). (rekey src dst k, v)) (AList.delete dst fs))
             | Some (File c) \<Rightarrow>
                 if is_Dir n then Inl (OSError 20)
                 else Inr (map (\<lambda>(k, v). (rekey src dst k, v)) (AList.delete dst fs))))"

text \<open>
  \<open>shutil.copy\<close>: a directory as target stands for the file of the same base name in
  it; copying a file onto itself is refused; the source is opened before the target.
\<close>

definition shutil_copy :: "filesystem \<Rightarrow> string \<Rightarrow> string \<Rightarrow> error + filesystem" where
  "shutil_copy fs src dst0 =
     (let dst = (if os_path_isdir fs dst0 then join dst0 (basename src) else dst0)
      in if src = dst \<and> os_path_exists fs src then Inl SameFileError
         else (case lookup fs src of
                 None \<Rightarrow> Inl (OSError 2)
               | Some Dir \<Rightarrow> Inl (OSError 21)
               | Some (File c) \<Rightarrow> write_file fs dst c))"

text \<open>
  \<open>glob(os.path.join(d, "*"))\<close>: the entries of the directory part of the pattern whose
  names do not start with a dot, each joined to that directory part, in directory
  order. Wildcard characters inside the directory part itself are taken literally.
\<close>

definition listdir :: "filesystem \<Rightarrow> string \<Rightarrow> string list" where
  "listdir fs d =
     (if d = [] \<or> os_path_isdir fs d
      then map basename
             (filter (\<lambda>k. basename k \<noteq> [] \<and> k = join d (basename k)) (map fst fs))
      else [])"

definition glob_star :: "filesystem \<Rightarrow> string \<Rightarrow> string list" where
  "glob_star fs d =
     (let dir = dirname (join d ''*'')
      in map (join dir) (filter (\<lambda>n. take 1 n \<noteq> ''.'') (listdir fs dir)))"

section \<open>Program state\<close>

text \<open>
  \<open>ConfigParser\<close> objects live in a store indexed by references; \<open>FOLDER_CACHE\<close> is the
  module-level dictionary \<open>_FOLDER_CACHE\<close> from folder path to such a reference. A
  \<open>MessageFolderInfo\<close> instance holds its path and the reference of its registry, so two
  instances with the same reference share one registry object.

  A function that can raise returns the error or its result together with the state it
  leaves behind, since mutations made before a \<open>raise\<close> persist.
\<close>

record state =
  fsys :: filesystem
  heap :: "nat \<Rightarrow> registry"
  next_ref :: nat
  FOLDER_CACHE :: "string \<rightharpoonup> nat"

record folder_info =
  path_of :: string
  config_of :: nat

definition registry_of :: "state \<Rightarrow> folder_info \<Rightarrow> registry" where
  "registry_of st self = heap st (config_of self)"

definition set_registry :: "folder_info \<Rightarrow> registry \<Rightarrow> state \<Rightarrow> state" where
  "set_registry self r st = st\<lparr>heap := (heap st)(config_of self := r)\<rparr>"

section \<open>\<open>MessageFolderInfo\<close>\<close>

definition save :: "folder_info \<Rightarrow> state \<Rightarrow> (error + unit) \<times> state" where
  "save self st =
     (let reg_path = join (path_of self) ''.db''
      in case write_file (fsys st) reg_path (Reg (registry_of st self)) of
           Inl e \<Rightarrow> (Inl e, st)
         | Inr fs' \<Rightarrow> (Inr (), st\<lparr>fsys := fs'\<rparr>))"

text \<open>
  \<open>self._config.read(reg_path)\<close>: a file that cannot be opened is skipped silently, a
  file that is not in the INI format raises.
\<close>

definition config_read :: "folder_info \<Rightarrow> string \<Rightarrow> state \<Rightarrow> (error + unit) \<times> state" where
  "config_read self reg_path st =
     (case lookup (fsys st) reg_path of
        Some (File (Reg r)) \<Rightarrow> (Inr (), set_registry self (read_into (registry_of st self) r) st)
      | Some (File (Msg s)) \<Rightarrow> (if s = [] then (Inr (), st) else (Inl ParsingError, st))
      | _ \<Rightarrow> (Inr (), st))"

definition MessageFolderInfo ::
  "string option \<Rightarrow> state \<Rightarrow> (error + folder_info) \<times> state" where
  "MessageFolderInfo folder_path_opt st =
     (case folder_path_opt of
        None \<Rightarrow> (Inl TypeError, st)
      | Some folder_path \<Rightarrow>
          (case FOLDER_CACHE st folder_path of
             Some r \<Rightarrow> (Inr \<lparr>path_of = folder_path, config_of = r\<rparr>, st)
           | None \<Rightarrow>
               (let self = \<lparr>path_of = folder_path, config_of = next_ref st\<rparr>;
                    st1 = st\<lparr>heap := (heap st)(next_ref st := empty_registry),
                             next_ref := Suc (next_ref st)\<rparr>;
                    reg_path = join folder_path ''.db''
                in case (if os_path_exists (fsys st1) reg_path
                         then config_read self reg_path st1 else (Inr (), st1)) of
                     (Inl e, st2) \<Rightarrow> (Inl e, st2)
                   | (Inr u, st2) \<Rightarrow>
                       (case save self st2 of
                          (Inl e, st3) \<Rightarrow> (Inl e, st3)
                        | (Inr u, st3) \<Rightarrow>
                            (Inr self,
                             st3\<lparr>FOLDER_CACHE :=
                                   (FOLDER_CACHE st3)(folder_path \<mapsto> config_of self)\<rparr>)))))"

definition name :: "folder_info \<Rightarrow> string" where
  "name self = basename (path_of self)"

definition set_prop ::
  "folder_info \<Rightarrow> string \<Rightarrow> string \<Rightarrow> string \<Rightarrow> state \<Rightarrow> (error + unit) \<times> state" where
  "set_prop self filename prop v st =
     (let fname = basename filename;
          r = registry_of st self
      in case (if \<not> has_section r fname then add_section r fname else Inr r) of
           Inl e \<Rightarrow> (Inl e, st)
         | Inr r1 \<Rightarrow>
             (case cp_set r1 fname prop v of
                Inl e \<Rightarrow> (Inl e, set_registry self r1 st)
              | Inr r2 \<Rightarrow> save self (set_registry self r2 st)))"

text \<open>\<open>_("Unknown")\<close> with no translation catalogue installed.\<close>

definition Unknown :: string where
  "Unknown = ''Unknown''"

definition get_prop :: "folder_info \<Rightarrow> string \<Rightarrow> string \<Rightarrow> state \<Rightarrow> error + string" where
  "get_prop self filename prop st =
     (let fname = basename filename
      in case cp_get (registry_of st self) fname prop of
           Inl (NoOptionError opt sec) \<Rightarrow> Inr Unknown
         | Inl (NoSectionError sec) \<Rightarrow> Inr Unknown
         | Inl e \<Rightarrow> Inl e
         | Inr v \<Rightarrow> Inr v)"

definition get_msg_subject :: "folder_info \<Rightarrow> string \<Rightarrow> state \<Rightarrow> error + string" where
  "get_msg_subject self filename st = get_prop self filename ''subject'' st"

definition set_msg_subject ::
  "folder_info \<Rightarrow> string \<Rightarrow> string \<Rightarrow> state \<Rightarrow> (error + unit) \<times> state" where
  "set_msg_subject self filename subject st = set_prop self filename ''subject'' subject st"

definition get_msg_type :: "folder_info \<Rightarrow> string \<Rightarrow> state \<Rightarrow> error + string" where
  "get_msg_type self filename st = get_prop self filename ''type'' st"

definition set_msg_type ::
  "folder_info \<Rightarrow> string \<Rightarrow> string \<Rightarrow> state \<Rightarrow> (error + unit) \<times> state" where
  "set_msg_type self filename msg_type st = set_prop self filename ''type'' msg_type st"

definition get_msg_read :: "folder_info \<Rightarrow> string \<Rightarrow> state \<Rightarrow> error + bool" where
  "get_msg_read self filename st =
     (case get_prop self filename ''read'' st of
        Inl e \<Rightarrow> Inl e
      | Inr val \<Rightarrow> Inr (val = ''True''))"

definition str_bool :: "bool \<Rightarrow> string" where
  "str_bool b = (if b then ''True'' else ''False'')"

definition set_msg_read ::
  "folder_info \<Rightarrow> string \<Rightarrow> bool \<Rightarrow> state \<Rightarrow> (error + unit) \<times> state" where
  "set_msg_read self filename rd st = set_prop self filename ''read'' (str_bool rd) st"

definition get_msg_sender :: "folder_info \<Rightarrow> string \<Rightarrow> state \<Rightarrow> error + string" where
  "get_msg_sender self filename st = get_prop self filename ''sender'' st"

definition set_msg_sender ::
  "folder_info \<Rightarrow> string \<Rightarrow> string \<Rightarrow> state \<Rightarrow> (error + unit) \<times> state" where
  "set_msg_sender self filename sender st = set_prop self filename ''sender'' sender st"

definition get_msg_recip :: "folder_info \<Rightarrow> string \<Rightarrow> state \<Rightarrow> error + string" where
  "get_msg_recip self filename st = get_prop self filename ''recip'' st"

definition set_msg_recip ::
  "folder_info \<Rightarrow> string \<Rightarrow> string \<Rightarrow> state \<Rightarrow> (error + unit) \<times> state" where
  "set_msg_recip self filename recip st = set_prop self filename ''recip'' recip st"

text \<open>
  \<open>subfolders\<close>: the loop over the sorted entries, building an instance for every
  directory; an exception of a constructor ends the loop.
\<close>

fun subfolders_loop ::
  "string list \<Rightarrow> folder_info list \<Rightarrow> state \<Rightarrow> (error + folder_info list) \<times> state" where
  "subfolders_loop [] info st = (Inr info, st)"
| "subfolders_loop (entry # entries) info st =
     (if entry = ''.'' \<or> entry = ''..'' then subfolders_loop entries info st
      else if os_path_isdir (fsys st) entry
      then (case MessageFolderInfo (Some entry) st of
              (Inl e, st') \<Rightarrow> (Inl e, st')
            | (Inr sub, st') \<Rightarrow> subfolders_loop entries (info @ [sub]) st')
      else subfolders_loop entries info st)"

definition subfolders :: "folder_info \<Rightarrow> state \<Rightarrow> (error + folder_info list) \<times> state" where
  "subfolders self st = subfolders_loop (sort (glob_star (fsys st) (path_of self))) [] st"

definition files :: "folder_info \<Rightarrow> state \<Rightarrow> string list" where
  "files self st =
     filter (\<lambda>x_file. os_path_isfile (fsys st) x_file \<and> take 1 x_file \<noteq> ''.'')
       (glob_star (fsys st) (path_of self))"

definition get_subfolder ::
  "folder_info \<Rightarrow> string \<Rightarrow> state \<Rightarrow> (error + folder_info option) \<times> state" where
  "get_subfolder self nm st =
     (case subfolders self st of
        (Inl e, st') \<Rightarrow> (Inl e, st')
      | (Inr folders, st') \<Rightarrow> (Inr (find (\<lambda>folder. name folder = nm) folders), st'))"

definition create_subfolder ::
  "folder_info \<Rightarrow> string \<Rightarrow> state \<Rightarrow> (error + folder_info) \<times> state" where
  "create_subfolder self nm st =
     (let path = join (path_of self) nm
      in case os_mkdir (fsys st) path of
           Inl (OSError n) \<Rightarrow>
             (if n \<noteq> 17 then (Inl (OSError n), st)
              else MessageFolderInfo (Some path) st)
         | Inl e \<Rightarrow> (Inl e, st)
         | Inr fs' \<Rightarrow> MessageFolderInfo (Some path) (st\<lparr>fsys := fs'\<rparr>))"

definition create_msg :: "folder_info \<Rightarrow> string \<Rightarrow> state \<Rightarrow> (error + string) \<times> state" where
  "create_msg self nm st =
     (let exists = os_path_exists (fsys st) (join (path_of self) nm)
      in case add_section (registry_of st self) nm of
           Inl (DuplicateSectionError sec) \<Rightarrow>
             (if exists then (Inl (DuplicateSectionError sec), st)
              else (Inr (join (path_of self) nm), st))
         | Inl e \<Rightarrow> (Inl e, st)
         | Inr r \<Rightarrow> (Inr (join (path_of self) nm), set_registry self r st))"

definition delete :: "folder_info \<Rightarrow> string \<Rightarrow> state \<Rightarrow> (error + unit) \<times> state" where
  "delete self filename st =
     (let fname = basename filename;
          st1 = set_registry self (remove_section (registry_of st self) fname) st
      in case os_remove (fsys st1) (join (path_of self) fname) of
           Inl e \<Rightarrow> (Inl e, st1)
         | Inr fs' \<Rightarrow> (Inr (), st1\<lparr>fsys := fs'\<rparr>))"

text \<open>\<open>rename\<close> returns the instance with its new \<open>_path\<close>.\<close>

definition rename :: "folder_info \<Rightarrow> string \<Rightarrow> state \<Rightarrow> (error + folder_info) \<times> state" where
  "rename self new_name st =
     (let new_path = join (dirname (path_of self)) new_name
      in case os_rename (fsys st) (path_of self) new_path of
           Inl e \<Rightarrow> (Inl e, st)
         | Inr fs' \<Rightarrow> (Inr (self\<lparr>path_of := new_path\<rparr>), st\<lparr>fsys := fs'\<rparr>))"

definition delete_self :: "folder_info \<Rightarrow> state \<Rightarrow> (error + unit) \<times> state" where
  "delete_self self st =
     (let st1 = (case os_remove (fsys st) (join (path_of self) ''.db'') of
                   Inl e \<Rightarrow> st
                 | Inr fs' \<Rightarrow> st\<lparr>fsys := fs'\<rparr>)
      in case os_rmdir (fsys st1) (path_of self) of
           Inl e \<Rightarrow> (Inl e, st1)
         | Inr fs' \<Rightarrow> (Inr (), st1\<lparr>fsys := fs'\<rparr>))"

section \<open>\<open>MessageFolders\<close>\<close>

text \<open>
  The configuration directory (\<open>self._config.platform.config_dir()\<close>) is a parameter.
  \<open>BASE_FOLDERS\<close> holds the untranslated names.
\<close>

definition BASE_FOLDERS :: "string list" where
  "BASE_FOLDERS = [''Inbox'', ''Outbox'', ''Sent'', ''Trash'', ''Drafts'']"

definition folders_path :: "string \<Rightarrow> state \<Rightarrow> (error + string) \<times> state" where
  "folders_path config_dir st =
     (let path = join config_dir ''messages''
      in if \<not> os_path_isdir (fsys st) path
         then (case os_makedirs (fsys st) path of
                 Inl e \<Rightarrow> (Inl e, st)
               | Inr fs' \<Rightarrow> (Inr path, st\<lparr>fsys := fs'\<rparr>))
         else (Inr path, st))"

text \<open>
  \<open>_create_folder(root, name)\<close>. The loop walks the intermediate elements of the name and
  leaves \<open>info\<close> at \<open>None\<close> when one is missing; calling \<open>create_subfolder\<close> on \<open>None\<close>
  raises \<open>AttributeError\<close>, which the \<open>except OSError\<close> clause does not catch. An
  \<open>OSError\<close> with \<open>errno\<close> 17 falls out of the \<open>except\<close> clause, and the function
  returns \<open>None\<close>.
\<close>

fun create_folder_loop ::
  "string list \<Rightarrow> folder_info \<Rightarrow> state \<Rightarrow> (error + folder_info option) \<times> state" where
  "create_folder_loop [] info st = (Inr (Some info), st)"
| "create_folder_loop (dir_element # rest) info st =
     (case get_subfolder info dir_element st of
        (Inl e, st') \<Rightarrow> (Inl e, st')
      | (Inr None, st') \<Rightarrow> (Inr None, st')
      | (Inr (Some sub), st') \<Rightarrow> create_folder_loop rest sub st')"

definition create_folder_impl ::
  "folder_info \<Rightarrow> string \<Rightarrow> state \<Rightarrow> (error + folder_info option) \<times> state" where
  "create_folder_impl root nm st =
     (case create_folder_loop (butlast (split_sep nm)) root st of
        (Inl e, st1) \<Rightarrow> (Inl e, st1)
      | (Inr None, st1) \<Rightarrow> (Inl AttributeError, st1)
      | (Inr (Some info), st1) \<Rightarrow>
          (case create_subfolder info (basename nm) st1 of
             (Inl (OSError n), st2) \<Rightarrow>
               (if n \<noteq> 17 then (Inl FolderError, st2) else (Inr None, st2))
           | (Inl e, st2) \<Rightarrow> (Inl e, st2)
           | (Inr sub, st2) \<Rightarrow> (Inr (Some sub), st2)))"

definition create_folder :: "string \<Rightarrow> string \<Rightarrow> state \<Rightarrow> (error + unit) \<times> state" where
  "create_folder config_dir nm st =
     (case folders_path config_dir st of
        (Inl e, st1) \<Rightarrow> (Inl e, st1)
      | (Inr path, st1) \<Rightarrow>
          (case MessageFolderInfo (Some path) st1 of
             (Inl e, st2) \<Rightarrow> (Inl e, st2)
           | (Inr root, st2) \<Rightarrow>
               (case create_folder_impl root nm st2 of
                  (Inl e, st3) \<Rightarrow> (Inl e, st3)
                | (Inr r, st3) \<Rightarrow> (Inr (), st3))))"

text \<open>
  \<open>_ensure_default_folders\<close>: for each base folder, \<open>_create_folder\<close> and then
  \<open>info.subfolders()\<close> (evaluated for the log line); only \<open>FolderError\<close> is swallowed.
\<close>

fun ensure_loop :: "folder_info \<Rightarrow> string list \<Rightarrow> state \<Rightarrow> (error + unit) \<times> state" where
  "ensure_loop root [] st = (Inr (), st)"
| "ensure_loop root (folder # rest) st =
     (case create_folder_impl root folder st of
        (Inl FolderError, st1) \<Rightarrow> ensure_loop root rest st1
      | (Inl e, st1) \<Rightarrow> (Inl e, st1)
      | (Inr None, st1) \<Rightarrow> (Inl AttributeError, st1)
      | (Inr (Some info), st1) \<Rightarrow>
          (case subfolders info st1 of
             (Inl FolderError, st2) \<Rightarrow> ensure_loop root rest st2
           | (Inl e, st2) \<Rightarrow> (Inl e, st2)
           | (Inr subs, st2) \<Rightarrow> ensure_loop root rest st2))"

definition ensure_default_folders :: "string \<Rightarrow> state \<Rightarrow> (error + unit) \<times> state" where
  "ensure_default_folders config_dir st =
     (case folders_path config_dir st of
        (Inl e, st1) \<Rightarrow> (Inl e, st1)
      | (Inr path, st1) \<Rightarrow>
          (case MessageFolderInfo (Some path) st1 of
             (Inl e, st2) \<Rightarrow> (Inl e, st2)
           | (Inr root, st2) \<Rightarrow> ensure_loop root BASE_FOLDERS st2))"

section \<open>\<open>MessageList\<close>\<close>

definition folder_path :: "string \<Rightarrow> string \<Rightarrow> state \<Rightarrow> string option" where
  "folder_path config_dir folder st =
     (let path = join (join config_dir ''messages'') folder
      in if \<not> os_path_isdir (fsys st) path then None else Some path)"

text \<open>
  \<open>move_message\<close>. Whether \<open>info\<close> is the instance currently shown
  (\<open>info == self.current_info\<close>, an identity test) and the effect of \<open>self.refresh()\<close>,
  which redraws the list through the form parser, are parameters.
\<close>

definition move_message ::
  "(state \<Rightarrow> (error + unit) \<times> state) \<Rightarrow> bool \<Rightarrow> string \<Rightarrow>
   folder_info \<Rightarrow> string \<Rightarrow> string \<Rightarrow> state \<Rightarrow> (error + string) \<times> state" where
  "move_message refresh is_current config_dir info path new_folder st =
     (case MessageFolderInfo (folder_path config_dir new_folder st) st of
        (Inl e, st1) \<Rightarrow> (Inl e, st1)
      | (Inr dest, st1) \<Rightarrow>
          (case create_msg dest (basename path) st1 of
             (Inl (DuplicateSectionError sec), st2) \<Rightarrow> (Inr path, st2)
           | (Inl e, st2) \<Rightarrow> (Inl e, st2)
           | (Inr newfn, st2) \<Rightarrow>
               (case shutil_copy (fsys st2) path newfn of
                  Inl e \<Rightarrow> (Inl e, st2)
                | Inr fs' \<Rightarrow>
                    (case delete info path (st2\<lparr>fsys := fs'\<rparr>) of
                       (Inl e, st3) \<Rightarrow> (Inl e, st3)
                     | (Inr u, st3) \<Rightarrow>
                         (if is_current
                          then (case refresh st3 of
                                  (Inl e, st4) \<Rightarrow> (Inl e, st4)
                                | (Inr u, st4) \<Rightarrow> (Inr newfn, st4))
                          else (Inr newfn, st3))))))"

section \<open>Facts about path names and interpolation\<close>

lemma basename_idem: "basename (basename p) = basename p"
  by (simp add: basename_def)

lemma basename_no_sep: "CHR ''/'' \<notin> set (basename p)"
  by (auto simp: basename_def dest: set_takeWhileD)

lemma basename_simple: "CHR ''/'' \<notin> set n \<Longrightarrow> basename n = n"
proof -
  assume "CHR ''/'' \<notin> set n"
  then have "takeWhile (\<lambda>c. c \<noteq> CHR ''/'') (rev n) = rev n"
    by (intro takeWhile_eq_all_conv [THEN iffD2]) auto
  then show ?thesis unfolding basename_def by (simp only: rev_rev_ident)
qed

lemma basename_append_sep: "CHR ''/'' \<notin> set n \<Longrightarrow> basename (a @ CHR ''/'' # n) = n"
proof -
  assume n: "CHR ''/'' \<notin> set n"
  have "rev (a @ CHR ''/'' # n) = rev n @ CHR ''/'' # rev a" by simp
  moreover from n have "takeWhile (\<lambda>c. c \<noteq> CHR ''/'') (rev n @ CHR ''/'' # rev a) = rev n"
    by (subst takeWhile_append2) auto
  ultimately show ?thesis by (simp add: basename_def)
qed

lemma basename_join: "CHR ''/'' \<notin> set n \<Longrightarrow> basename (join a n) = n"
proof -
  assume n: "CHR ''/'' \<notin> set n"
  then have hd: "\<not> (n \<noteq> [] \<and> hd n = CHR ''/'')"
    by (cases n) auto
  show ?thesis
  proof (cases "a = []")
    case True
    with n hd show ?thesis by (simp add: join_def basename_simple)
  next
    case False
    then obtain a' c where a: "a = a' @ [c]"
      by (metis rev_exhaust)
    show ?thesis
    proof (cases "c = CHR ''/''")
      case True
      with a hd have "join a n = a' @ CHR ''/'' # n" by (simp add: join_def)
      with n show ?thesis by (simp add: basename_append_sep)
    next
      case False
      with a hd have "join a n = a @ CHR ''/'' # n" by (simp add: join_def)
      with n show ?thesis by (simp add: basename_append_sep)
    qed
  qed
qed

lemma interpolate_plain:
  "CHR ''%'' \<notin> set v \<Longrightarrow> interpolate_some m 1 v = Inr v"
proof -
  assume "CHR ''%'' \<notin> set v"
  then have "dropWhile (\<lambda>c. c \<noteq> CHR ''%'') v = []"
    by auto
  then show ?thesis
    by (subst interpolate_some.simps) (simp add: MAX_INTERPOLATION_DEPTH_def Let_def)
qed

section \<open>Example states\<close>

text \<open>
  A folder \<open>/m/Inbox\<close> holding one message \<open>a.xml\<close> that is registered with a subject,
  and the instance for it, as left by the constructor and \<open>set_msg_subject\<close>.
\<close>

definition inbox_registry :: registry where
  "inbox_registry =
     \<lparr>sections = [''a.xml'' \<mapsto> [''subject'' \<mapsto> ''hello'']], defaults = Map.empty\<rparr>"

definition inbox_fs :: filesystem where
  "inbox_fs =
     [(''/'', Dir), (''/m'', Dir), (''/m/Inbox'', Dir),
      (''/m/Inbox/.db'', File (Reg inbox_registry)),
      (''/m/Inbox/a.xml'', File (Msg ''<xml/>''))]"

definition inbox_state :: state where
  "inbox_state =
     \<lparr>fsys = inbox_fs, heap = (\<lambda>r. if r = 0 then inbox_registry else empty_registry),
      next_ref = 1, FOLDER_CACHE = [''/m/Inbox'' \<mapsto> 0]\<rparr>"

definition inbox_info :: folder_info where
  "inbox_info = \<lparr>path_of = ''/m/Inbox'', config_of = 0\<rparr>"

section \<open>Creating a message entry\<close>

text \<open>
  C2 (as stated): \<open>create_msg(name)\<close> raises \<open>DuplicateSectionError\<close> if and only if the
  section and the file both exist, and in every other case returns the joined path without
  raising. This fails for the name \<open>DEFAULT\<close>, which \<open>add_section\<close> rejects with
  \<open>ValueError\<close>: in the example folder there is neither a section nor a file of that name,
  and \<open>create_msg\<close> raises.
\<close>

theorem create_msg_reserved_name_raises:
  "\<not> has_section (registry_of inbox_state inbox_info) ''DEFAULT'' \<and>
   \<not> os_path_exists (fsys inbox_state) (join (path_of inbox_info) ''DEFAULT'') \<and>
   fst (create_msg inbox_info ''DEFAULT'' inbox_state) = Inl ValueError"
  by (simp add: create_msg_def add_section_def has_section_def registry_of_def
      inbox_state_def inbox_info_def inbox_registry_def inbox_fs_def default_section_def
      os_path_exists_def lookup_def join_def)

text \<open>
  C2 (amended): for every folder and every name other than the reserved section name
  \<open>DEFAULT\<close>, \<open>create_msg(name)\<close> raises \<open>DuplicateSectionError\<close> exactly when a registry
  section of that name exists and \<open>os.path.exists\<close> holds of the joined path; in every other
  case it returns the joined path.
\<close>

theorem create_msg_duplicate_iff:
  assumes "nm \<noteq> default_section"
  shows "fst (create_msg self nm st) =
           (if has_section (registry_of st self) nm \<and>
               os_path_exists (fsys st) (join (path_of self) nm)
            then Inl (DuplicateSectionError nm)
            else Inr (join (path_of self) nm))"
  using assms by (simp add: create_msg_def add_section_def has_section_def Let_def)

theorem create_msg_duplicate_iff_witness:
  "''a.xml'' \<noteq> default_section \<and> ''b.xml'' \<noteq> default_section \<and>
   fst (create_msg inbox_info ''a.xml'' inbox_state) = Inl (DuplicateSectionError ''a.xml'') \<and>
   fst (create_msg inbox_info ''b.xml'' inbox_state) = Inr ''/m/Inbox/b.xml''"
  using create_msg_duplicate_iff [of "''a.xml''" inbox_info inbox_state]
    create_msg_duplicate_iff [of "''b.xml''" inbox_info inbox_state]
  by (simp add: has_section_def registry_of_def inbox_state_def inbox_info_def
      inbox_registry_def inbox_fs_def default_section_def os_path_exists_def lookup_def
      join_def)

section \<open>Registry objects as the parser keeps them\<close>

text \<open>
  A \<open>ConfigParser\<close> never holds a section called \<open>DEFAULT\<close> (\<open>add_section\<close> refuses the
  name), and options addressed to the empty section name go to the defaults, so a
  section with the empty name stays empty. Every operation of the parser keeps this.
\<close>

definition wf_registry :: "registry \<Rightarrow> bool" where
  "wf_registry r =
     (sections r default_section = None \<and>
      (case sections r [] of None \<Rightarrow> True | Some d \<Rightarrow> dom d = {}))"

lemma wf_empty_registry: "wf_registry empty_registry"
  by (simp add: wf_registry_def empty_registry_def)

lemma wf_add_section: "wf_registry r \<Longrightarrow> add_section r s = Inr r' \<Longrightarrow> wf_registry r'"
  by (auto simp: wf_registry_def add_section_def split: if_splits option.splits)

lemma wf_remove_section: "wf_registry r \<Longrightarrow> wf_registry (remove_section r s)"
  by (auto simp: wf_registry_def remove_section_def split: option.splits)

lemma wf_cp_set: "wf_registry r \<Longrightarrow> cp_set r s opt v = Inr r' \<Longrightarrow> wf_registry r'"
  by (auto simp: wf_registry_def cp_set_def split: if_splits option.splits sum.splits)

lemma optionxform_names:
  "optionxform ''subject'' = ''subject''" "optionxform ''type'' = ''type''"
  "optionxform ''read'' = ''read''" "optionxform ''sender'' = ''sender''"
  "optionxform ''recip'' = ''recip''"
  by (simp_all add: optionxform_def lower_char_def)

section \<open>Reading properties\<close>

lemma cp_get_no_entry:
  assumes "defaults r = Map.empty"
    and "sections r s = None \<or> sections r s = Some Map.empty"
  shows "cp_get r s opt = Inl (NoSectionError s) \<or>
         cp_get r s opt = Inl (NoOptionError (optionxform opt) s)"
  using assms by (auto simp: cp_get_def unify_values_def)

lemma get_prop_no_entry:
  assumes "defaults (registry_of st self) = Map.empty"
    and "sections (registry_of st self) (basename f) = None \<or>
         sections (registry_of st self) (basename f) = Some Map.empty"
  shows "get_prop self f opt st = Inr Unknown"
  using cp_get_no_entry [OF assms, of opt] by (auto simp: get_prop_def)

definition reads_as_unregistered :: "folder_info \<Rightarrow> string \<Rightarrow> state \<Rightarrow> bool" where
  "reads_as_unregistered self f st =
     (get_msg_subject self f st = Inr ''Unknown'' \<and>
      get_msg_type self f st = Inr ''Unknown'' \<and>
      get_msg_sender self f st = Inr ''Unknown'' \<and>
      get_msg_recip self f st = Inr ''Unknown'' \<and>
      get_msg_read self f st = Inr False)"

lemma no_entry_reads_as_unregistered:
  assumes "defaults (registry_of st self) = Map.empty"
    and "sections (registry_of st self) (basename f) = None \<or>
         sections (registry_of st self) (basename f) = Some Map.empty"
  shows "reads_as_unregistered self f st"
  using get_prop_no_entry [OF assms]
  by (simp add: reads_as_unregistered_def get_msg_subject_def get_msg_type_def
      get_msg_sender_def get_msg_recip_def get_msg_read_def Unknown_def)

lemma create_msg_fresh_registry:
  assumes "\<not> has_section (registry_of st self) nm"
    and "create_msg self nm st = (Inr p, st')"
  shows "sections (registry_of st' self) nm = Some Map.empty \<and>
         defaults (registry_of st' self) = defaults (registry_of st self) \<and>
         p = join (path_of self) nm"
  using assms
  by (auto simp: create_msg_def add_section_def has_section_def registry_of_def
      set_registry_def Let_def split: if_splits)

lemma get_prop_no_section:
  assumes "sections (registry_of st self) (basename f) = None"
    and "basename f \<noteq> default_section"
  shows "get_prop self f opt st = Inr Unknown"
  using assms by (simp add: get_prop_def cp_get_def unify_values_def)

lemma no_section_reads_as_unregistered:
  assumes "sections (registry_of st self) (basename f) = None"
    and "basename f \<noteq> default_section"
  shows "reads_as_unregistered self f st"
  using get_prop_no_section [OF assms]
  by (simp add: reads_as_unregistered_def get_msg_subject_def get_msg_type_def
      get_msg_sender_def get_msg_recip_def get_msg_read_def Unknown_def)

text \<open>
  C5 (as stated): for every file name with no registry entry, including a message just
  created by \<open>create_msg\<close> with no property set, the text getters return \<open>"Unknown"\<close>.
  This fails once the parser holds a default value: setting a subject under a file name
  with an empty base name (\<open>/m/Inbox/\<close>) stores it in the parser's defaults, and a
  message created afterwards, for which nothing was set, reads back that subject.
\<close>

theorem parser_default_shadows_unknown:
  "fst (set_msg_subject inbox_info ''/m/Inbox/'' ''x'' inbox_state) = Inr () \<and>
   \<not> has_section
       (registry_of (snd (set_msg_subject inbox_info ''/m/Inbox/'' ''x'' inbox_state))
          inbox_info) ''b.xml'' \<and>
   fst (create_msg inbox_info ''b.xml''
          (snd (set_msg_subject inbox_info ''/m/Inbox/'' ''x'' inbox_state)))
     = Inr ''/m/Inbox/b.xml'' \<and>
   get_msg_subject inbox_info ''/m/Inbox/b.xml''
     (snd (create_msg inbox_info ''b.xml''
             (snd (set_msg_subject inbox_info ''/m/Inbox/'' ''x'' inbox_state))))
     = Inr ''x''"
  by code_simp

text \<open>
  C5 (amended): the four text getters return \<open>"Unknown"\<close> and \<open>get_msg_read\<close> returns
  false, none of them raising,
  \<^item> for every file name whose base name has no registry section, unless the base name is
    the reserved \<open>DEFAULT\<close> and the parser holds default values;
  \<^item> for every message just created by \<open>create_msg\<close> under a name of one path component
    (read by that name or by the returned path) before any property is set, when the
    parser holds no default values.
\<close>

theorem getters_without_entry:
  "(sections (registry_of st self) (basename f) = None \<and>
    (basename f \<noteq> default_section \<or> defaults (registry_of st self) = Map.empty)
      \<longrightarrow> reads_as_unregistered self f st) \<and>
   (defaults (registry_of st self) = Map.empty \<and>
    \<not> has_section (registry_of st self) nm \<and> CHR ''/'' \<notin> set nm \<and>
    create_msg self nm st = (Inr p, st')
      \<longrightarrow> reads_as_unregistered self nm st' \<and> reads_as_unregistered self p st')"
proof (intro conjI impI)
  assume a: "sections (registry_of st self) (basename f) = None \<and>
    (basename f \<noteq> default_section \<or> defaults (registry_of st self) = Map.empty)"
  show "reads_as_unregistered self f st"
  proof (cases "basename f = default_section")
    case False
    with a show ?thesis by (simp add: no_section_reads_as_unregistered)
  next
    case True
    with a show ?thesis by (simp add: no_entry_reads_as_unregistered)
  qed
next
  assume a: "defaults (registry_of st self) = Map.empty \<and>
             \<not> has_section (registry_of st self) nm \<and> CHR ''/'' \<notin> set nm \<and>
             create_msg self nm st = (Inr p, st')"
  then have r: "sections (registry_of st' self) nm = Some Map.empty"
    "defaults (registry_of st' self) = Map.empty" "p = join (path_of self) nm"
    using create_msg_fresh_registry [of st self nm p st'] by simp_all
  from a have b: "basename nm = nm" "basename p = nm"
    using r(3) by (simp_all add: basename_simple basename_join)
  from r b show "reads_as_unregistered self nm st'"
    by (simp add: no_entry_reads_as_unregistered)
  from r b show "reads_as_unregistered self p st'"
    by (simp add: no_entry_reads_as_unregistered)
qed

theorem getters_without_entry_witness:
  "sections (registry_of inbox_state inbox_info) (basename ''/m/Inbox/zzz.xml'') = None \<and>
   basename ''/m/Inbox/zzz.xml'' \<noteq> default_section \<and>
   reads_as_unregistered inbox_info ''/m/Inbox/zzz.xml'' inbox_state \<and>
   defaults (registry_of inbox_state inbox_info) = Map.empty \<and>
   \<not> has_section (registry_of inbox_state inbox_info) ''b.xml'' \<and>
   CHR ''/'' \<notin> set ''b.xml'' \<and>
   fst (create_msg inbox_info ''b.xml'' inbox_state) = Inr ''/m/Inbox/b.xml'' \<and>
   reads_as_unregistered inbox_info ''/m/Inbox/b.xml''
     (snd (create_msg inbox_info ''b.xml'' inbox_state))"
proof -
  let ?st' = "snd (create_msg inbox_info ''b.xml'' inbox_state)"
  have d: "defaults (registry_of inbox_state inbox_info) = Map.empty"
    by (simp add: registry_of_def inbox_state_def inbox_info_def inbox_registry_def)
  have s: "sections (registry_of inbox_state inbox_info) (basename ''/m/Inbox/zzz.xml'') = None"
    by (simp add: registry_of_def inbox_state_def inbox_info_def inbox_registry_def
        basename_def)
  have n: "basename ''/m/Inbox/zzz.xml'' \<noteq> default_section"
    by (simp add: basename_def default_section_def)
  have h: "\<not> has_section (registry_of inbox_state inbox_info) ''b.xml''"
    by (simp add: has_section_def registry_of_def inbox_state_def inbox_info_def
        inbox_registry_def)
  have k: "CHR ''/'' \<notin> set ''b.xml''" by simp
  have c: "fst (create_msg inbox_info ''b.xml'' inbox_state) = Inr ''/m/Inbox/b.xml''"
    using h by (simp add: create_msg_def add_section_def has_section_def default_section_def
        inbox_info_def join_def Let_def)
  then have e: "create_msg inbox_info ''b.xml'' inbox_state = (Inr ''/m/Inbox/b.xml'', ?st')"
    by (metis prod.collapse)
  note t = getters_without_entry [of inbox_state inbox_info "''/m/Inbox/zzz.xml''"
      "''b.xml''" "''/m/Inbox/b.xml''" ?st']
  from t s n have u1: "reads_as_unregistered inbox_info ''/m/Inbox/zzz.xml'' inbox_state"
    by blast
  from t d h k e have u2: "reads_as_unregistered inbox_info ''/m/Inbox/b.xml'' ?st'"
    by blast
  from s n u1 d h k c u2 show ?thesis by (simp only: simp_thms)
qed

section \<open>Keying by base name\<close>

lemma get_prop_basename: "get_prop self (basename f) opt st = get_prop self f opt st"
  by (simp add: get_prop_def basename_idem)

lemma set_prop_basename: "set_prop self (basename f) opt v st = set_prop self f opt v st"
  by (simp add: set_prop_def basename_idem)

lemma delete_basename: "delete self (basename f) st = delete self f st"
  by (simp add: delete_def basename_idem)

lemma save_registry: "registry_of (snd (save self st)) self' = registry_of st self'"
  by (simp add: save_def registry_of_def Let_def split: sum.splits)

lemma before_set_value: "before_set v = Inr x \<Longrightarrow> x = v"
  by (simp add: before_set_def split: if_splits)

lemma before_get_plain: "CHR ''%'' \<notin> set v \<Longrightarrow> before_get m v = Inr v"
  unfolding before_get_def by (rule interpolate_plain)

lemma cp_get_after_cp_set:
  assumes "wf_registry r1" and "sections r1 s \<noteq> None"
    and "cp_set r1 s opt v = Inr r2" and "CHR ''%'' \<notin> set v"
  shows "cp_get r2 s opt = Inr v"
proof (cases "s = [] \<or> s = default_section")
  case True
  with assms(1,2) have s: "s = []" and e: "sections r1 [] = Some Map.empty"
    by (auto simp: wf_registry_def split: option.splits)
  from assms(3) s have "r2 = r1\<lparr>defaults := (defaults r1)(optionxform opt \<mapsto> v)\<rparr>"
    by (auto simp: cp_set_def split: sum.splits if_splits dest: before_set_value)
  with s e assms(4) show ?thesis
    by (simp add: cp_get_def unify_values_def before_get_plain)
next
  case False
  from assms(2) obtain d where d: "sections r1 s = Some d" by auto
  with assms(3) False
  have "r2 = r1\<lparr>sections := (sections r1)(s \<mapsto> d(optionxform opt \<mapsto> v))\<rparr>"
    by (auto simp: cp_set_def split: sum.splits if_splits dest: before_set_value)
  with assms(4) show ?thesis
    by (simp add: cp_get_def unify_values_def before_get_plain)
qed

lemma get_after_set_prop:
  assumes "wf_registry (registry_of st self)"
    and "set_prop self f opt v st = (Inr (), st')"
    and "CHR ''%'' \<notin> set v"
  shows "get_prop self f opt st' = Inr v"
proof -
  let ?r = "registry_of st self" and ?b = "basename f"
  obtain r1 where r1: "(if \<not> has_section ?r ?b then add_section ?r ?b else Inr ?r) = Inr r1"
    using assms(2) by (auto simp: set_prop_def Let_def split: sum.splits)
  then have wf1: "wf_registry r1" and sec: "sections r1 ?b \<noteq> None"
    using assms(1)
    by (auto simp: has_section_def add_section_def wf_registry_def
        split: if_splits option.splits)
  obtain r2 where r2: "cp_set r1 ?b opt v = Inr r2"
    using assms(2) r1 by (auto simp: set_prop_def Let_def split: sum.splits)
  with assms(2) r1 have "st' = snd (save self (set_registry self r2 st))"
    by (simp add: set_prop_def Let_def)
  then have "registry_of st' self = r2"
    by (simp add: save_registry) (simp add: registry_of_def set_registry_def)
  moreover have "cp_get r2 ?b opt = Inr v"
    using wf1 sec r2 assms(3) by (rule cp_get_after_cp_set)
  ultimately show ?thesis by (simp add: get_prop_def)
qed

text \<open>
  C10 (as stated): getting, setting and deleting by a full path equal doing so by its base
  name, with the example that \<open>set_msg_subject(f, s)\<close> followed by
  \<open>get_msg_subject(basename(f))\<close> returns \<open>s\<close>. The example fails for subjects with a
  percent sign: the parser validates and later expands \<open>%\<close> sequences, so a subject
  \<open>50%\<close> is refused with \<open>ValueError\<close>, and \<open>100%%\<close> is stored but read back as
  \<open>100%\<close>.
\<close>

theorem subject_with_percent_not_read_back:
  "fst (set_msg_subject inbox_info ''/m/Inbox/a.xml'' ''50%'' inbox_state) = Inl ValueError \<and>
   fst (set_msg_subject inbox_info ''/m/Inbox/a.xml'' ''100%%'' inbox_state) = Inr () \<and>
   get_msg_subject inbox_info ''a.xml''
     (snd (set_msg_subject inbox_info ''/m/Inbox/a.xml'' ''100%%'' inbox_state)) = Inr ''100%''"
  by code_simp

text \<open>
  C10 (amended): every per-message get, set and delete keys by the base name of its file
  name argument, so doing it by the full path equals doing it by the base name; and a
  subject without a percent sign that \<open>set_msg_subject(f, s)\<close> has stored is what
  \<open>get_msg_subject(basename(f))\<close> returns.
\<close>

theorem registry_keyed_by_basename:
  "get_prop self f opt st = get_prop self (basename f) opt st \<and>
   set_prop self f opt v st = set_prop self (basename f) opt v st \<and>
   delete self f st = delete self (basename f) st \<and>
   (wf_registry (registry_of st self) \<and> CHR ''%'' \<notin> set s \<and>
    set_msg_subject self f s st = (Inr (), st')
      \<longrightarrow> get_msg_subject self (basename f) st' = Inr s)"
proof (intro conjI impI)
  assume a: "wf_registry (registry_of st self) \<and> CHR ''%'' \<notin> set s \<and>
             set_msg_subject self f s st = (Inr (), st')"
  then have "get_prop self f ''subject'' st' = Inr s"
    by (intro get_after_set_prop [of st self f _ s]) (simp_all add: set_msg_subject_def)
  then show "get_msg_subject self (basename f) st' = Inr s"
    by (simp add: get_msg_subject_def get_prop_basename)
qed (simp_all add: get_prop_basename set_prop_basename delete_basename)

theorem registry_keyed_by_basename_witness:
  "wf_registry (registry_of inbox_state inbox_info) \<and>
   CHR ''%'' \<notin> set ''Status report'' \<and>
   fst (set_msg_subject inbox_info ''/m/Inbox/a.xml'' ''Status report'' inbox_state) = Inr () \<and>
   get_msg_subject inbox_info (basename ''/m/Inbox/a.xml'')
     (snd (set_msg_subject inbox_info ''/m/Inbox/a.xml'' ''Status report'' inbox_state))
     = Inr ''Status report''"
proof -
  let ?st' = "snd (set_msg_subject inbox_info ''/m/Inbox/a.xml'' ''Status report'' inbox_state)"
  have w: "wf_registry (registry_of inbox_state inbox_info)"
    by (simp add: wf_registry_def registry_of_def inbox_state_def inbox_info_def
        inbox_registry_def default_section_def)
  have p: "CHR ''%'' \<notin> set ''Status report''" by simp
  have r: "fst (set_msg_subject inbox_info ''/m/Inbox/a.xml'' ''Status report'' inbox_state)
             = Inr ()"
    by code_simp
  then have e: "set_msg_subject inbox_info ''/m/Inbox/a.xml'' ''Status report'' inbox_state
             = (Inr (), ?st')"
    by (metis prod.collapse)
  from registry_keyed_by_basename [of inbox_info "''/m/Inbox/a.xml''" _ inbox_state _
      "''Status report''" ?st'] w p e
  have "get_msg_subject inbox_info (basename ''/m/Inbox/a.xml'') ?st' = Inr ''Status report''"
    by blast
  with w p r show ?thesis by blast
qed

section \<open>The folder cache\<close>

text \<open>
  Only the constructor assigns to \<open>_FOLDER_CACHE\<close>, and only for a path that has no entry
  yet; no function of the module removes or replaces an entry.
\<close>

definition cache_kept :: "state \<Rightarrow> state \<Rightarrow> bool" where
  "cache_kept st st' =
     (\<forall>p r. FOLDER_CACHE st p = Some r \<longrightarrow> FOLDER_CACHE st' p = Some r)"

lemma cache_kept_refl: "cache_kept st st"
  by (simp add: cache_kept_def)

lemma cache_kept_trans: "cache_kept st st1 \<Longrightarrow> cache_kept st1 st2 \<Longrightarrow> cache_kept st st2"
  by (simp add: cache_kept_def)

lemma cache_kept_same: "FOLDER_CACHE st' = FOLDER_CACHE st \<Longrightarrow> cache_kept st st'"
  by (simp add: cache_kept_def)

lemma save_cache: "FOLDER_CACHE (snd (save self st)) = FOLDER_CACHE st"
  by (simp add: save_def Let_def split: sum.splits)

lemma config_read_cache: "FOLDER_CACHE (snd (config_read self p st)) = FOLDER_CACHE st"
  by (simp add: config_read_def set_registry_def
      split: option.splits node.splits content.splits)

lemma MessageFolderInfo_cache_kept: "cache_kept st (snd (MessageFolderInfo po st))"
proof (cases po)
  case None
  then show ?thesis by (simp add: MessageFolderInfo_def cache_kept_refl)
next
  case (Some p)
  show ?thesis
  proof (cases "FOLDER_CACHE st p")
    case (Some r)
    with \<open>po = Some p\<close> show ?thesis by (simp add: MessageFolderInfo_def cache_kept_refl)
  next
    case None
    let ?self = "\<lparr>path_of = p, config_of = next_ref st\<rparr>"
    let ?st1 = "st\<lparr>heap := (heap st)(next_ref st := empty_registry),
                    next_ref := Suc (next_ref st)\<rparr>"
    let ?rd = "if os_path_exists (fsys ?st1) (join p ''.db'')
               then config_read ?self (join p ''.db'') ?st1 else (Inr (), ?st1)"
    have c2: "FOLDER_CACHE (snd ?rd) = FOLDER_CACHE st"
      by (simp add: config_read_cache)
    have c3: "FOLDER_CACHE (snd (save ?self (snd ?rd))) = FOLDER_CACHE st"
      by (simp only: save_cache c2)
    obtain a st2 where rd: "?rd = (a, st2)" by (cases ?rd)
    obtain b st3 where sv: "save ?self st2 = (b, st3)" by (cases "save ?self st2")
    from rd c2 have k2: "FOLDER_CACHE st2 = FOLDER_CACHE st" by simp
    from rd sv c3 have k3: "FOLDER_CACHE st3 = FOLDER_CACHE st" by simp
    have "snd (MessageFolderInfo po st) = st2 \<or> snd (MessageFolderInfo po st) = st3 \<or>
          snd (MessageFolderInfo po st) = st3\<lparr>FOLDER_CACHE := (FOLDER_CACHE st3)(p \<mapsto> next_ref st)\<rparr>"
      using \<open>po = Some p\<close> None rd sv
      by (simp add: MessageFolderInfo_def Let_def split: sum.splits)
    with k2 k3 None show ?thesis
      by (auto simp: cache_kept_def)
  qed
qed

lemma set_prop_cache: "FOLDER_CACHE (snd (set_prop self f opt v st)) = FOLDER_CACHE st"
  by (simp add: set_prop_def Let_def set_registry_def save_cache split: sum.splits)

lemma create_msg_cache: "FOLDER_CACHE (snd (create_msg self nm st)) = FOLDER_CACHE st"
  by (simp add: create_msg_def Let_def set_registry_def split: sum.splits error.splits)

lemma delete_cache: "FOLDER_CACHE (snd (delete self f st)) = FOLDER_CACHE st"
  by (simp add: delete_def Let_def set_registry_def split: sum.splits)

lemma rename_cache: "FOLDER_CACHE (snd (rename self nm st)) = FOLDER_CACHE st"
  by (simp add: rename_def Let_def split: sum.splits)

lemma delete_self_cache: "FOLDER_CACHE (snd (delete_self self st)) = FOLDER_CACHE st"
  by (simp add: delete_self_def Let_def split: sum.splits)

lemma folders_path_cache: "FOLDER_CACHE (snd (folders_path cfg st)) = FOLDER_CACHE st"
  by (simp add: folders_path_def Let_def split: sum.splits)

lemma subfolders_loop_cache_kept: "cache_kept st (snd (subfolders_loop es info st))"
proof (induction es arbitrary: info st)
  case Nil
  show ?case by (simp add: cache_kept_refl)
next
  case (Cons e es)
  show ?case
  proof (cases "e \<noteq> ''.'' \<and> e \<noteq> ''..'' \<and> os_path_isdir (fsys st) e")
    case False
    then show ?thesis using Cons.IH [of st info] by auto
  next
    case True
    obtain r st' where m: "MessageFolderInfo (Some e) st = (r, st')"
      by (cases "MessageFolderInfo (Some e) st")
    then have k: "cache_kept st st'"
      using MessageFolderInfo_cache_kept [of st "Some e"] by simp
    show ?thesis
    proof (cases r)
      case (Inl err)
      with True m k show ?thesis by simp
    next
      case (Inr sub)
      with True m have "snd (subfolders_loop (e # es) info st) =
                        snd (subfolders_loop es (info @ [sub]) st')"
        by simp
      with k Cons.IH [of st' "info @ [sub]"] show ?thesis
        by (auto intro: cache_kept_trans)
    qed
  qed
qed

lemma subfolders_cache_kept: "cache_kept st (snd (subfolders self st))"
  by (simp add: subfolders_def subfolders_loop_cache_kept)

lemma get_subfolder_cache_kept: "cache_kept st (snd (get_subfolder self nm st))"
proof -
  obtain r st' where g: "subfolders self st = (r, st')"
    by (cases "subfolders self st")
  then have "cache_kept st st'"
    using subfolders_cache_kept [of st self] by simp
  moreover from g have "snd (get_subfolder self nm st) = st'"
    by (cases r) (simp_all add: get_subfolder_def)
  ultimately show ?thesis by simp
qed

lemma create_subfolder_cache_kept: "cache_kept st (snd (create_subfolder self nm st))"
proof -
  let ?p = "join (path_of self) nm"
  have a: "cache_kept st (snd (MessageFolderInfo (Some ?p) st))"
    by (rule MessageFolderInfo_cache_kept)
  have b: "cache_kept st (snd (MessageFolderInfo (Some ?p) (st\<lparr>fsys := fs'\<rparr>)))" for fs'
    using MessageFolderInfo_cache_kept [of "st\<lparr>fsys := fs'\<rparr>" "Some ?p"]
    by (simp add: cache_kept_def)
  show ?thesis
    using a b
    by (simp add: create_subfolder_def Let_def cache_kept_refl split: sum.splits error.splits)
qed

lemma create_folder_loop_cache_kept:
  "cache_kept st (snd (create_folder_loop els info st))"
proof (induction els arbitrary: info st)
  case Nil
  show ?case by (simp add: cache_kept_refl)
next
  case (Cons el els)
  obtain r st' where g: "get_subfolder info el st = (r, st')"
    by (cases "get_subfolder info el st")
  then have k: "cache_kept st st'"
    using get_subfolder_cache_kept [of st info el] by simp
  show ?case
  proof (cases r)
    case (Inl err)
    with g k show ?thesis by simp
  next
    case (Inr so)
    show ?thesis
    proof (cases so)
      case None
      with Inr g k show ?thesis by simp
    next
      case (Some sub)
      with Inr g have "snd (create_folder_loop (el # els) info st) =
                       snd (create_folder_loop els sub st')"
        by simp
      with k Cons.IH [of st' sub] show ?thesis
        by (auto intro: cache_kept_trans)
    qed
  qed
qed

lemma create_folder_impl_cache_kept:
  "cache_kept st (snd (create_folder_impl root nm st))"
proof -
  obtain r st1 where l: "create_folder_loop (butlast (split_sep nm)) root st = (r, st1)"
    by (cases "create_folder_loop (butlast (split_sep nm)) root st")
  then have k: "cache_kept st st1"
    using create_folder_loop_cache_kept [of st "butlast (split_sep nm)" root] by simp
  have "cache_kept st1 (snd (create_folder_impl root nm st))"
  proof (cases r)
    case (Inl e)
    with l show ?thesis by (simp add: create_folder_impl_def cache_kept_refl)
  next
    case (Inr io)
    show ?thesis
    proof (cases io)
      case None
      with Inr l show ?thesis by (simp add: create_folder_impl_def cache_kept_refl)
    next
      case (Some info)
      obtain r2 st2 where c: "create_subfolder info (basename nm) st1 = (r2, st2)"
        by (cases "create_subfolder info (basename nm) st1")
      then have "cache_kept st1 st2"
        using create_subfolder_cache_kept [of st1 info "basename nm"] by simp
      moreover from Some Inr l c have "snd (create_folder_impl root nm st) = st2"
        by (simp add: create_folder_impl_def split: sum.splits error.splits)
      ultimately show ?thesis by simp
    qed
  qed
  with k show ?thesis by (rule cache_kept_trans)
qed

lemma create_folder_cache_kept: "cache_kept st (snd (create_folder cfg nm st))"
proof -
  obtain r1 st1 where a: "folders_path cfg st = (r1, st1)"
    by (cases "folders_path cfg st")
  then have k1: "cache_kept st st1"
    using folders_path_cache [of cfg st] by (simp add: cache_kept_same)
  show ?thesis
  proof (cases r1)
    case (Inl e)
    with a k1 show ?thesis by (simp add: create_folder_def)
  next
    case (Inr path)
    obtain r2 st2 where b: "MessageFolderInfo (Some path) st1 = (r2, st2)"
      by (cases "MessageFolderInfo (Some path) st1")
    then have k2: "cache_kept st st2"
      using MessageFolderInfo_cache_kept [of st1 "Some path"] k1
      by (auto intro: cache_kept_trans)
    show ?thesis
    proof (cases r2)
      case (Inl e)
      with a b Inr k2 show ?thesis by (simp add: create_folder_def)
    next
      case (Inr root)
      obtain r3 st3 where c: "create_folder_impl root nm st2 = (r3, st3)"
        by (cases "create_folder_impl root nm st2")
      then have "cache_kept st st3"
        using create_folder_impl_cache_kept [of st2 root nm] k2
        by (auto intro: cache_kept_trans)
      moreover from a b c Inr \<open>r1 = Inr path\<close>
      have "snd (create_folder cfg nm st) = st3"
        by (cases r3) (simp_all add: create_folder_def)
      ultimately show ?thesis by simp
    qed
  qed
qed

lemma ensure_loop_cache_kept: "cache_kept st (snd (ensure_loop root names st))"
proof (induction names arbitrary: st)
  case Nil
  show ?case by (simp add: cache_kept_refl)
next
  case (Cons folder rest)
  obtain r1 st1 where a: "create_folder_impl root folder st = (r1, st1)"
    by (cases "create_folder_impl root folder st")
  then have k1: "cache_kept st st1"
    using create_folder_impl_cache_kept [of st root folder] by simp
  have rest1: "cache_kept st (snd (ensure_loop root rest st1))"
    using k1 Cons.IH [of st1] by (rule cache_kept_trans)
  show ?case
  proof (cases r1)
    case (Inl e)
    with a k1 rest1 show ?thesis by (cases e) simp_all
  next
    case (Inr io)
    show ?thesis
    proof (cases io)
      case None
      with Inr a k1 show ?thesis by simp
    next
      case (Some info)
      obtain r2 st2 where b: "subfolders info st1 = (r2, st2)"
        by (cases "subfolders info st1")
      then have k2: "cache_kept st st2"
        using subfolders_cache_kept [of st1 info] k1 by (auto intro: cache_kept_trans)
      have rest2: "cache_kept st (snd (ensure_loop root rest st2))"
        using k2 Cons.IH [of st2] by (rule cache_kept_trans)
      show ?thesis
      proof (cases r2)
        case (Inl e)
        with Some Inr a b k2 rest2 show ?thesis by (cases e) simp_all
      next
        case (Inr subs)
        with Some \<open>r1 = Inr io\<close> a b rest2 show ?thesis by simp
      qed
    qed
  qed
qed

lemma ensure_default_folders_cache_kept:
  "cache_kept st (snd (ensure_default_folders cfg st))"
proof -
  obtain r1 st1 where a: "folders_path cfg st = (r1, st1)"
    by (cases "folders_path cfg st")
  then have k1: "cache_kept st st1"
    using folders_path_cache [of cfg st] by (simp add: cache_kept_same)
  show ?thesis
  proof (cases r1)
    case (Inl e)
    with a k1 show ?thesis by (simp add: ensure_default_folders_def)
  next
    case (Inr path)
    obtain r2 st2 where b: "MessageFolderInfo (Some path) st1 = (r2, st2)"
      by (cases "MessageFolderInfo (Some path) st1")
    then have k2: "cache_kept st st2"
      using MessageFolderInfo_cache_kept [of st1 "Some path"] k1
      by (auto intro: cache_kept_trans)
    show ?thesis
    proof (cases r2)
      case (Inl e)
      with a b Inr k2 show ?thesis by (simp add: ensure_default_folders_def)
    next
      case (Inr root)
      have "cache_kept st (snd (ensure_loop root BASE_FOLDERS st2))"
        using k2 ensure_loop_cache_kept by (rule cache_kept_trans)
      with a b Inr \<open>r1 = Inr path\<close> show ?thesis
        by (simp add: ensure_default_folders_def)
    qed
  qed
qed

lemma move_message_cache_kept:
  assumes "\<And>s. cache_kept s (snd (refresh s))"
  shows "cache_kept st (snd (move_message refresh cur cfg info path nf st))"
proof -
  obtain r1 st1 where a: "MessageFolderInfo (folder_path cfg nf st) st = (r1, st1)"
    by (cases "MessageFolderInfo (folder_path cfg nf st) st")
  then have k1: "cache_kept st st1"
    using MessageFolderInfo_cache_kept [of st "folder_path cfg nf st"] by simp
  show ?thesis
  proof (cases r1)
    case (Inl e)
    with a k1 show ?thesis by (simp add: move_message_def)
  next
    case (Inr dest)
    obtain r2 st2 where b: "create_msg dest (basename path) st1 = (r2, st2)"
      by (cases "create_msg dest (basename path) st1")
    then have k2: "cache_kept st st2"
      using create_msg_cache [of dest "basename path" st1] k1
      by (auto simp: cache_kept_def)
    show ?thesis
    proof (cases r2)
      case (Inl e)
      with a b Inr k2 show ?thesis by (cases e) (simp_all add: move_message_def)
    next
      case (Inr newfn)
      show ?thesis
      proof (cases "shutil_copy (fsys st2) path newfn")
        case (Inl e)
        with a b Inr \<open>r1 = Inr dest\<close> k2 show ?thesis by (simp add: move_message_def)
      next
        case (Inr fs')
        obtain r3 st3 where c: "delete info path (st2\<lparr>fsys := fs'\<rparr>) = (r3, st3)"
          by (cases "delete info path (st2\<lparr>fsys := fs'\<rparr>)")
        then have k3: "cache_kept st st3"
          using delete_cache [of info path "st2\<lparr>fsys := fs'\<rparr>"] k2
          by (auto simp: cache_kept_def)
        have k4: "cache_kept st (snd (refresh st3))"
          using k3 assms by (rule cache_kept_trans)
        from a b c Inr \<open>r1 = Inr dest\<close> \<open>r2 = Inr newfn\<close> k3 k4 show ?thesis
          by (cases r3; cases cur; cases "refresh st3"; cases "fst (refresh st3)")
             (auto simp: move_message_def)
      qed
    qed
  qed
qed

text \<open>
  The operations of the module on the program state, to speak about arbitrary sequences
  of them. \<open>MoveMessage\<close> is the move out of a folder that is not the one on display.
\<close>

datatype operation =
    Construct "string option"
  | SetProp folder_info string string string
  | CreateMsg folder_info string
  | Delete folder_info string
  | Rename folder_info string
  | DeleteSelf folder_info
  | Subfolders folder_info
  | GetSubfolder folder_info string
  | CreateSubfolder folder_info string
  | CreateFolder string string
  | EnsureDefaultFolders string
  | MoveMessage string folder_info string string

fun run :: "operation \<Rightarrow> state \<Rightarrow> state" where
  "run (Construct p) st = snd (MessageFolderInfo p st)"
| "run (SetProp self f opt v) st = snd (set_prop self f opt v st)"
| "run (CreateMsg self nm) st = snd (create_msg self nm st)"
| "run (Delete self f) st = snd (delete self f st)"
| "run (Rename self nm) st = snd (rename self nm st)"
| "run (DeleteSelf self) st = snd (delete_self self st)"
| "run (Subfolders self) st = snd (subfolders self st)"
| "run (GetSubfolder self nm) st = snd (get_subfolder self nm st)"
| "run (CreateSubfolder self nm) st = snd (create_subfolder self nm st)"
| "run (CreateFolder cfg nm) st = snd (create_folder cfg nm st)"
| "run (EnsureDefaultFolders cfg) st = snd (ensure_default_folders cfg st)"
| "run (MoveMessage cfg info path nf) st =
     snd (move_message (\<lambda>s. (Inr (), s)) False cfg info path nf st)"

definition run_all :: "operation list \<Rightarrow> state \<Rightarrow> state" where
  "run_all ops st = fold run ops st"

definition cold_state :: state where
  "cold_state =
     \<lparr>fsys = inbox_fs, heap = (\<lambda>r. empty_registry), next_ref = 0,
      FOLDER_CACHE = Map.empty\<rparr>"

lemma run_cache_kept: "cache_kept st (run op st)"
proof (cases op)
  case (MoveMessage cfg info path nf)
  then show ?thesis
    by (simp add: move_message_cache_kept cache_kept_refl)
qed (simp_all add: MessageFolderInfo_cache_kept subfolders_cache_kept
      get_subfolder_cache_kept create_subfolder_cache_kept create_folder_cache_kept
      ensure_default_folders_cache_kept cache_kept_same set_prop_cache create_msg_cache
      delete_cache rename_cache delete_self_cache)

lemma run_all_cache_kept: "cache_kept st (run_all ops st)"
  unfolding run_all_def
proof (induction ops arbitrary: st)
  case Nil
  show ?case by (simp add: cache_kept_refl)
next
  case (Cons op ops)
  have "cache_kept st (run op st)" by (rule run_cache_kept)
  then show ?case using Cons.IH [of "run op st"] by (auto intro: cache_kept_trans)
qed

lemma MessageFolderInfo_cached:
  "FOLDER_CACHE st p = Some r \<Longrightarrow>
   MessageFolderInfo (Some p) st = (Inr \<lparr>path_of = p, config_of = r\<rparr>, st)"
  by (simp add: MessageFolderInfo_def)

lemma MessageFolderInfo_enters_cache:
  assumes "MessageFolderInfo (Some p) st = (Inr a, st1)"
  shows "FOLDER_CACHE st1 p = Some (config_of a) \<and> path_of a = p"
proof (cases "FOLDER_CACHE st p")
  case (Some r)
  with assms show ?thesis by (auto simp: MessageFolderInfo_def)
next
  case None
  with assms show ?thesis
    by (auto simp: MessageFolderInfo_def Let_def split: prod.splits sum.splits if_splits)
qed

section \<open>Renaming a folder\<close>

text \<open>
  C6: when \<open>rename(new_name)\<close> returns, for a new name that is a single path component,
  \<open>name()\<close> of the instance is the new name, and every property read through the
  instance is what it was before, under the same message names: the registry is keyed by
  message base names and \<open>rename\<close> does not touch it.
\<close>

theorem rename_then_name:
  assumes "rename self new_name st = (Inr self', st')"
    and "CHR ''/'' \<notin> set new_name"
  shows "name self' = new_name \<and>
         registry_of st' self' = registry_of st self \<and>
         get_prop self' f opt st' = get_prop self f opt st \<and>
         get_msg_read self' f st' = get_msg_read self f st"
proof -
  from assms(1) obtain fs' where
    s: "self' = self\<lparr>path_of := join (dirname (path_of self)) new_name\<rparr>"
    and t: "st' = st\<lparr>fsys := fs'\<rparr>"
    by (auto simp: rename_def Let_def split: sum.splits)
  from s assms(2) have "name self' = new_name"
    by (simp add: name_def basename_join)
  moreover from s t have r: "registry_of st' self' = registry_of st self"
    by (simp add: registry_of_def)
  then have "get_prop self' f opt st' = get_prop self f opt st" for f opt
    by (simp add: get_prop_def)
  ultimately show ?thesis using r by (simp add: get_msg_read_def)
qed

theorem rename_then_name_witness:
  "fst (rename inbox_info ''Archive'' inbox_state)
     = Inr \<lparr>path_of = ''/m/Archive'', config_of = 0\<rparr> \<and>
   CHR ''/'' \<notin> set ''Archive'' \<and>
   name \<lparr>path_of = ''/m/Archive'', config_of = 0\<rparr> = ''Archive'' \<and>
   get_prop \<lparr>path_of = ''/m/Archive'', config_of = 0\<rparr> ''a.xml'' ''subject''
     (snd (rename inbox_info ''Archive'' inbox_state)) = Inr ''hello''"
proof -
  let ?a = "\<lparr>path_of = ''/m/Archive'', config_of = 0\<rparr>"
  let ?st' = "snd (rename inbox_info ''Archive'' inbox_state)"
  have f: "fst (rename inbox_info ''Archive'' inbox_state) = Inr ?a"
    by code_simp
  then have e: "rename inbox_info ''Archive'' inbox_state = (Inr ?a, ?st')"
    by (metis prod.collapse)
  have n: "CHR ''/'' \<notin> set ''Archive''" by simp
  have g: "get_prop inbox_info ''a.xml'' ''subject'' inbox_state = Inr ''hello''"
    by code_simp
  note t = rename_then_name [OF e n, of "''a.xml''" "''subject''"]
  from t have "name ?a = ''Archive''" by (rule conjunct1)
  moreover from t have "get_prop ?a ''a.xml'' ''subject'' ?st'
      = get_prop inbox_info ''a.xml'' ''subject'' inbox_state"
    by (rule conjunct2 [THEN conjunct2, THEN conjunct1])
  ultimately show ?thesis using f n g by (simp only: simp_thms)
qed

section \<open>Deleting a message\<close>

lemma lookup_delete: "lookup (AList.delete p fs) q = (if q = p then None else lookup fs q)"
  by (simp add: lookup_def delete_conv')

lemma lookup_update: "lookup (AList.update p n fs) q = (if q = p then Some n else lookup fs q)"
  by (simp add: lookup_def update_conv')

lemma files_are_files: "x \<in> set (files self st) \<Longrightarrow> os_path_isfile (fsys st) x"
  by (simp add: files_def)

text \<open>
  C7: for a message whose file is in the folder, \<open>delete(filename)\<close> returns normally,
  the file is gone, the registry has no section for its base name, and \<open>files()\<close> does not
  list it any more.
\<close>

theorem delete_removes_message:
  assumes "lookup (fsys st) (join (path_of self) (basename f)) = Some (File c)"
  shows "fst (delete self f st) = Inr () \<and>
         lookup (fsys (snd (delete self f st))) (join (path_of self) (basename f)) = None \<and>
         \<not> has_section (registry_of (snd (delete self f st)) self) (basename f) \<and>
         join (path_of self) (basename f) \<notin> set (files self (snd (delete self f st)))"
proof -
  let ?p = "join (path_of self) (basename f)"
  let ?st1 = "set_registry self (remove_section (registry_of st self) (basename f)) st"
  from assms have "os_remove (fsys ?st1) ?p = Inr (AList.delete ?p (fsys st))"
    by (simp add: os_remove_def set_registry_def)
  then have d: "delete self f st = (Inr (), ?st1\<lparr>fsys := AList.delete ?p (fsys st)\<rparr>)"
    by (simp add: delete_def Let_def)
  then have l: "lookup (fsys (snd (delete self f st))) ?p = None"
    by (simp add: lookup_delete)
  then have "\<not> os_path_isfile (fsys (snd (delete self f st))) ?p"
    by (simp add: os_path_isfile_def)
  then have "?p \<notin> set (files self (snd (delete self f st)))"
    using files_are_files by blast
  moreover from d have "\<not> has_section (registry_of (snd (delete self f st)) self) (basename f)"
    by (simp add: has_section_def registry_of_def set_registry_def remove_section_def)
  ultimately show ?thesis using d l by simp
qed

theorem delete_removes_message_witness:
  "lookup (fsys inbox_state) (join (path_of inbox_info) (basename ''/m/Inbox/a.xml''))
     = Some (File (Msg ''<xml/>'')) \<and>
   ''/m/Inbox/a.xml'' \<in> set (files inbox_info inbox_state) \<and>
   fst (delete inbox_info ''/m/Inbox/a.xml'' inbox_state) = Inr () \<and>
   ''/m/Inbox/a.xml'' \<notin> set (files inbox_info (snd (delete inbox_info ''/m/Inbox/a.xml'' inbox_state)))"
proof -
  have j: "join (path_of inbox_info) (basename ''/m/Inbox/a.xml'') = ''/m/Inbox/a.xml''"
    by code_simp
  have a: "lookup (fsys inbox_state) (join (path_of inbox_info) (basename ''/m/Inbox/a.xml''))
     = Some (File (Msg ''<xml/>''))"
    by (simp add: j) (simp add: lookup_def inbox_state_def inbox_fs_def)
  have b: "''/m/Inbox/a.xml'' \<in> set (files inbox_info inbox_state)"
    by code_simp
  note t = delete_removes_message [OF a]
  from t have "fst (delete inbox_info ''/m/Inbox/a.xml'' inbox_state) = Inr ()"
    by (rule conjunct1)
  moreover from t [unfolded j] have "''/m/Inbox/a.xml'' \<notin>
      set (files inbox_info (snd (delete inbox_info ''/m/Inbox/a.xml'' inbox_state)))"
    by (rule conjunct2 [THEN conjunct2, THEN conjunct2])
  ultimately show ?thesis using a b by (simp only: simp_thms)
qed

section \<open>Writing the registry file\<close>

lemma write_file_lookup:
  "write_file fs p c = Inr fs' \<Longrightarrow> lookup fs' q = (if q = p then Some (File c) else lookup fs q)"
  by (auto simp: write_file_def lookup_update split: option.splits node.splits)

lemma save_writes_db:
  assumes "save self st = (Inr (), st')"
  shows "lookup (fsys st') (join (path_of self) ''.db'') = Some (File (Reg (registry_of st self)))
         \<and> registry_of st' self = registry_of st self"
proof -
  from assms obtain fs' where
    w: "write_file (fsys st) (join (path_of self) ''.db'') (Reg (registry_of st self)) = Inr fs'"
    and s: "st' = st\<lparr>fsys := fs'\<rparr>"
    by (auto simp: save_def Let_def split: sum.splits)
  from w s show ?thesis
    by (simp add: write_file_lookup registry_of_def)
qed

text \<open>
  Setting a property rewrites the registry file: when \<open>_set_prop\<close> returns, the \<open>.db\<close> file
  of the folder holds exactly the registry in memory.
\<close>

lemma set_prop_writes_db:
  assumes "set_prop self f opt v st = (Inr (), st')"
  shows "lookup (fsys st') (join (path_of self) ''.db'') = Some (File (Reg (registry_of st' self)))"
proof -
  let ?r = "registry_of st self" and ?b = "basename f"
  obtain r1 where r1: "(if \<not> has_section ?r ?b then add_section ?r ?b else Inr ?r) = Inr r1"
    using assms by (auto simp: set_prop_def Let_def split: sum.splits)
  obtain r2 where r2: "cp_set r1 ?b opt v = Inr r2"
    using assms r1 by (auto simp: set_prop_def Let_def split: sum.splits)
  with assms r1 have "save self (set_registry self r2 st) = (Inr (), st')"
    by (simp add: set_prop_def Let_def)
  from save_writes_db [OF this] show ?thesis by simp
qed

text \<open>
  C3: every registry mutation, a property set or the deletion of a message's section,
  rewrites the \<open>.db\<close> file at once, so that afterwards the registry on disk equals the one
  in memory. \<open>delete\<close> does not: it removes the section from the registry object and
  unlinks the message file, but never calls \<open>_save\<close>. In the example folder the registry on
  disk equals the one in memory before the deletion; afterwards the one in memory has
  lost the section of \<open>a.xml\<close> while the one on disk still holds it.
\<close>

theorem delete_leaves_db_stale:
  "lookup (fsys inbox_state) ''/m/Inbox/.db''
     = Some (File (Reg (registry_of inbox_state inbox_info))) \<and>
   fst (delete inbox_info ''/m/Inbox/a.xml'' inbox_state) = Inr () \<and>
   \<not> has_section
       (registry_of (snd (delete inbox_info ''/m/Inbox/a.xml'' inbox_state)) inbox_info)
       ''a.xml'' \<and>
   (case lookup (fsys (snd (delete inbox_info ''/m/Inbox/a.xml'' inbox_state)))
           ''/m/Inbox/.db'' of
      Some (File (Reg r)) \<Rightarrow> has_section r ''a.xml''
    | _ \<Rightarrow> False)"
proof -
  have a: "lookup (fsys inbox_state) ''/m/Inbox/.db''
     = Some (File (Reg (registry_of inbox_state inbox_info)))"
    by (simp add: lookup_def inbox_state_def inbox_fs_def registry_of_def inbox_info_def)
  have b: "fst (delete inbox_info ''/m/Inbox/a.xml'' inbox_state) = Inr ()"
    by code_simp
  have c: "\<not> has_section
       (registry_of (snd (delete inbox_info ''/m/Inbox/a.xml'' inbox_state)) inbox_info)
       ''a.xml''"
    by code_simp
  have d: "(case lookup (fsys (snd (delete inbox_info ''/m/Inbox/a.xml'' inbox_state)))
           ''/m/Inbox/.db'' of
      Some (File (Reg r)) \<Rightarrow> has_section r ''a.xml''
    | _ \<Rightarrow> False)"
    by code_simp
  from a b c d show ?thesis by (simp only: simp_thms)
qed

section \<open>Moving a message onto an existing one\<close>

text \<open>
  The registry that the constructor hands out for a folder path, where this can be told
  from the state alone: the cached object, or else what the \<open>.db\<close> file of the folder holds.
\<close>

definition folder_registry :: "state \<Rightarrow> string \<Rightarrow> registry option" where
  "folder_registry st p =
     (case FOLDER_CACHE st p of
        Some r \<Rightarrow> Some (heap st r)
      | None \<Rightarrow>
          (case lookup (fsys st) (join p ''.db'') of
             Some (File (Reg reg)) \<Rightarrow> Some reg
           | _ \<Rightarrow> None))"

lemma read_into_empty: "read_into empty_registry r = r"
proof (rule registry.equality)
  show "sections (read_into empty_registry r) = sections r"
    by (rule ext) (simp add: read_into_def empty_registry_def split: option.splits)
  show "defaults (read_into empty_registry r) = defaults r"
    by (simp add: read_into_def empty_registry_def)
qed simp

lemma add_section_duplicate:
  "wf_registry r \<Longrightarrow> has_section r s \<Longrightarrow> add_section r s = Inl (DuplicateSectionError s)"
  by (auto simp: wf_registry_def has_section_def add_section_def)

lemma create_msg_duplicate:
  assumes "wf_registry (registry_of st self)" and "has_section (registry_of st self) nm"
    and "os_path_exists (fsys st) (join (path_of self) nm)"
  shows "create_msg self nm st = (Inl (DuplicateSectionError nm), st)"
  using assms by (simp add: create_msg_def add_section_duplicate Let_def)

lemma MessageFolderInfo_from_db:
  assumes "FOLDER_CACHE st p = None"
    and "lookup (fsys st) (join p ''.db'') = Some (File (Reg reg))"
  shows "\<exists>st'. MessageFolderInfo (Some p) st = (Inr \<lparr>path_of = p, config_of = next_ref st\<rparr>, st') \<and>
           heap st' = (heap st)(next_ref st := reg) \<and>
           (\<forall>q. lookup (fsys st') q = lookup (fsys st) q)"
proof -
  let ?self = "\<lparr>path_of = p, config_of = next_ref st\<rparr>"
  let ?st1 = "st\<lparr>heap := (heap st)(next_ref st := empty_registry),
                  next_ref := Suc (next_ref st)\<rparr>"
  let ?st2 = "?st1\<lparr>heap := (heap st)(next_ref st := reg)\<rparr>"
  let ?fs3 = "AList.update (join p ''.db'') (File (Reg reg)) (fsys st)"
  have e: "os_path_exists (fsys ?st1) (join p ''.db'')"
    using assms(2) by (simp add: os_path_exists_def)
  have r: "config_read ?self (join p ''.db'') ?st1 = (Inr (), ?st2)"
    using assms(2) by (simp add: config_read_def set_registry_def registry_of_def read_into_empty)
  have s: "save ?self ?st2 = (Inr (), ?st2\<lparr>fsys := ?fs3\<rparr>)"
    using assms(2) by (simp add: save_def write_file_def registry_of_def)
  have "MessageFolderInfo (Some p) st =
          (Inr ?self, ?st2\<lparr>fsys := ?fs3, FOLDER_CACHE := (FOLDER_CACHE st)(p \<mapsto> next_ref st)\<rparr>)"
    using assms(1) e r s by (simp add: MessageFolderInfo_def Let_def)
  moreover have "lookup ?fs3 q = lookup (fsys st) q" for q
    using assms(2) by (simp add: lookup_update)
  ultimately show ?thesis by simp
qed

text \<open>
  A message store under \<open>/c/messages\<close>: the message \<open>a.xml\<close> lies in \<open>Outbox\<close> and, with its
  registry section, in \<open>Inbox\<close>; only the \<open>Outbox\<close> instance has been constructed.
\<close>

definition move_fs :: filesystem where
  "move_fs =
     [(''/'', Dir), (''/c'', Dir), (''/c/messages'', Dir),
      (''/c/messages/Inbox'', Dir),
      (''/c/messages/Inbox/.db'', File (Reg inbox_registry)),
      (''/c/messages/Inbox/a.xml'', File (Msg ''<old/>'')),
      (''/c/messages/Outbox'', Dir),
      (''/c/messages/Outbox/.db'', File (Reg empty_registry)),
      (''/c/messages/Outbox/a.xml'', File (Msg ''<new/>''))]"

definition move_state :: state where
  "move_state =
     \<lparr>fsys = move_fs, heap = (\<lambda>r. empty_registry), next_ref = 1,
      FOLDER_CACHE = [''/c/messages/Outbox'' \<mapsto> 0]\<rparr>"

definition outbox_info :: folder_info where
  "outbox_info = \<lparr>path_of = ''/c/messages/Outbox'', config_of = 0\<rparr>"

definition no_refresh :: "state \<Rightarrow> (error + unit) \<times> state" where
  "no_refresh st = (Inr (), st)"

text \<open>
  C1: when the destination folder already has a registry section for the base name of
  the message and a file of that name, \<open>move_message\<close> returns the path it was given and
  changes nothing: every path of the file system holds what it held (the source file is
  still there, the file in the destination is not overwritten) and the registry of the
  source instance is as before.
\<close>

theorem move_message_duplicate_noop:
  assumes "folder_path config_dir new_folder st = Some d"
    and "folder_registry st d = Some reg"
    and "wf_registry reg"
    and "has_section reg (basename path)"
    and "os_path_exists (fsys st) (join d (basename path))"
    and "config_of info < next_ref st"
  shows "fst (move_message refresh is_current config_dir info path new_folder st) = Inr path \<and>
         (\<forall>q. lookup (fsys (snd (move_message refresh is_current config_dir info path
                                    new_folder st))) q = lookup (fsys st) q) \<and>
         registry_of (snd (move_message refresh is_current config_dir info path new_folder st))
           info = registry_of st info"
proof (cases "FOLDER_CACHE st d")
  case (Some r)
  let ?dest = "\<lparr>path_of = d, config_of = r\<rparr>"
  from Some assms(2) have h: "heap st r = reg" by (simp add: folder_registry_def)
  from Some have m: "MessageFolderInfo (Some d) st = (Inr ?dest, st)"
    by (rule MessageFolderInfo_cached)
  have "create_msg ?dest (basename path) st = (Inl (DuplicateSectionError (basename path)), st)"
    using assms(3,4,5) h by (intro create_msg_duplicate) (simp_all add: registry_of_def)
  with m assms(1) have "move_message refresh is_current config_dir info path new_folder st
      = (Inr path, st)"
    by (simp add: move_message_def)
  then show ?thesis by simp
next
  case None
  let ?dest = "\<lparr>path_of = d, config_of = next_ref st\<rparr>"
  from None assms(2) have "lookup (fsys st) (join d ''.db'') = Some (File (Reg reg))"
    by (auto simp: folder_registry_def split: option.splits node.splits content.splits)
  from MessageFolderInfo_from_db [OF None this] obtain st' where
    m: "MessageFolderInfo (Some d) st = (Inr ?dest, st')"
    and h: "heap st' = (heap st)(next_ref st := reg)"
    and l: "\<forall>q. lookup (fsys st') q = lookup (fsys st) q"
    by blast
  have "os_path_exists (fsys st') (join d (basename path))"
    using assms(5) l by (simp add: os_path_exists_def)
  then have "create_msg ?dest (basename path) st'
      = (Inl (DuplicateSectionError (basename path)), st')"
    using assms(3,4) h by (intro create_msg_duplicate) (simp_all add: registry_of_def)
  with m assms(1) have "move_message refresh is_current config_dir info path new_folder st
      = (Inr path, st')"
    by (simp add: move_message_def)
  moreover from h assms(6) have "registry_of st' info = registry_of st info"
    by (simp add: registry_of_def)
  ultimately show ?thesis using l by simp
qed

theorem move_message_duplicate_noop_witness:
  "folder_path ''/c'' ''Inbox'' move_state = Some ''/c/messages/Inbox'' \<and>
   folder_registry move_state ''/c/messages/Inbox'' = Some inbox_registry \<and>
   wf_registry inbox_registry \<and>
   has_section inbox_registry (basename ''/c/messages/Outbox/a.xml'') \<and>
   os_path_exists (fsys move_state)
     (join ''/c/messages/Inbox'' (basename ''/c/messages/Outbox/a.xml'')) \<and>
   config_of outbox_info < next_ref move_state \<and>
   fst (move_message no_refresh True ''/c'' outbox_info ''/c/messages/Outbox/a.xml''
          ''Inbox'' move_state) = Inr ''/c/messages/Outbox/a.xml''"
proof -
  have a1: "folder_path ''/c'' ''Inbox'' move_state = Some ''/c/messages/Inbox''"
    by code_simp
  have a2: "folder_registry move_state ''/c/messages/Inbox'' = Some inbox_registry"
    by (simp add: folder_registry_def move_state_def move_fs_def lookup_def join_def)
  have a3: "wf_registry inbox_registry"
    by (simp add: wf_registry_def inbox_registry_def default_section_def)
  have a4: "has_section inbox_registry (basename ''/c/messages/Outbox/a.xml'')"
    by code_simp
  have a5: "os_path_exists (fsys move_state)
     (join ''/c/messages/Inbox'' (basename ''/c/messages/Outbox/a.xml''))"
    by code_simp
  have a6: "config_of outbox_info < next_ref move_state"
    by (simp add: outbox_info_def move_state_def)
  have "fst (move_message no_refresh True ''/c'' outbox_info ''/c/messages/Outbox/a.xml''
          ''Inbox'' move_state) = Inr ''/c/messages/Outbox/a.xml''"
    by (rule move_message_duplicate_noop [OF a1 a2 a3 a4 a5 a6, THEN conjunct1])
  with a1 a2 a3 a4 a5 a6 show ?thesis by (simp only: simp_thms)
qed

section \<open>Loading and sharing the cached registry\<close>

lemma MessageFolderInfo_no_db:
  assumes "FOLDER_CACHE st p = None"
    and "lookup (fsys st) (join p ''.db'') = None"
    and "MessageFolderInfo (Some p) st = (Inr a, st1)"
  shows "registry_of st1 a = empty_registry \<and>
         lookup (fsys st1) (join p ''.db'') = Some (File (Reg empty_registry))"
proof -
  let ?self = "\<lparr>path_of = p, config_of = next_ref st\<rparr>"
  let ?st0 = "st\<lparr>heap := (heap st)(next_ref st := empty_registry),
                  next_ref := Suc (next_ref st)\<rparr>"
  have ne: "\<not> os_path_exists (fsys ?st0) (join p ''.db'')"
    using assms(2) by (simp add: os_path_exists_def)
  from assms(1,3) ne obtain st3 where sv: "save ?self ?st0 = (Inr (), st3)"
    and a: "a = ?self"
    and s1: "st1 = st3\<lparr>FOLDER_CACHE := (FOLDER_CACHE st3)(p \<mapsto> next_ref st)\<rparr>"
    by (auto simp: MessageFolderInfo_def Let_def split: prod.splits sum.splits)
  have r0: "registry_of ?st0 ?self = empty_registry"
    by (simp add: registry_of_def)
  from save_writes_db [OF sv] r0
  have "lookup (fsys st3) (join p ''.db'') = Some (File (Reg empty_registry))"
    and "registry_of st3 ?self = empty_registry"
    by simp_all
  with a s1 show ?thesis by (simp add: registry_of_def)
qed

text \<open>
  C9: the first construction of a \<open>MessageFolderInfo\<close> for a path loads the registry from
  the \<open>.db\<close> file of the folder (or starts an empty one and writes it, when there is no
  such file) and caches the registry object under that path. No sequence of operations
  removes or replaces the entry: every later construction for the same path returns the
  same registry object and leaves the whole state as it is, so nothing is loaded from
  \<open>.db\<close> again; two instances for one path read the same registry, and a property set
  through one is read through the other.
\<close>

theorem folder_cache_shared:
  assumes "MessageFolderInfo (Some p) st = (Inr a, st1)"
  shows "FOLDER_CACHE (run_all ops st1) p = Some (config_of a) \<and>
         MessageFolderInfo (Some p) (run_all ops st1) =
           (Inr \<lparr>path_of = p, config_of = config_of a\<rparr>, run_all ops st1) \<and>
         (MessageFolderInfo (Some p) (run_all ops st1) = (Inr b, st2)
            \<longrightarrow> config_of b = config_of a \<and>
                (\<forall>s g opt. get_prop b g opt s = get_prop a g opt s) \<and>
                (\<forall>f opt v st3.
                    wf_registry (registry_of st2 a) \<and> CHR ''%'' \<notin> set v \<and>
                    set_prop a f opt v st2 = (Inr (), st3)
                      \<longrightarrow> get_prop b f opt st3 = Inr v)) \<and>
         (FOLDER_CACHE st p = None \<and>
          lookup (fsys st) (join p ''.db'') = Some (File (Reg reg))
            \<longrightarrow> registry_of st1 a = reg) \<and>
         (FOLDER_CACHE st p = None \<and> lookup (fsys st) (join p ''.db'') = None
            \<longrightarrow> registry_of st1 a = empty_registry \<and>
                lookup (fsys st1) (join p ''.db'') = Some (File (Reg empty_registry)))"
proof -
  from assms have c1: "FOLDER_CACHE st1 p = Some (config_of a)"
    by (simp add: MessageFolderInfo_enters_cache)
  have "cache_kept st1 (run_all ops st1)" by (rule run_all_cache_kept)
  with c1 have c: "FOLDER_CACHE (run_all ops st1) p = Some (config_of a)"
    by (simp add: cache_kept_def)
  then have m: "MessageFolderInfo (Some p) (run_all ops st1) =
                  (Inr \<lparr>path_of = p, config_of = config_of a\<rparr>, run_all ops st1)"
    by (rule MessageFolderInfo_cached)
  have sh: "config_of b = config_of a \<and>
        (\<forall>s g opt. get_prop b g opt s = get_prop a g opt s) \<and>
        (\<forall>f opt v st3.
            wf_registry (registry_of st2 a) \<and> CHR ''%'' \<notin> set v \<and>
            set_prop a f opt v st2 = (Inr (), st3)
              \<longrightarrow> get_prop b f opt st3 = Inr v)"
    if b: "MessageFolderInfo (Some p) (run_all ops st1) = (Inr b, st2)"
  proof -
    from b m have e: "config_of b = config_of a" by auto
    then have g: "get_prop b g opt s = get_prop a g opt s" for s g opt
      by (simp add: get_prop_def registry_of_def)
    have "get_prop b f opt st3 = Inr v"
      if "wf_registry (registry_of st2 a) \<and> CHR ''%'' \<notin> set v \<and>
          set_prop a f opt v st2 = (Inr (), st3)" for f opt v st3
      using that g get_after_set_prop [of st2 a f opt v st3] by simp
    with e g show ?thesis by blast
  qed
  have ld: "registry_of st1 a = reg"
    if "FOLDER_CACHE st p = None \<and> lookup (fsys st) (join p ''.db'') = Some (File (Reg reg))"
  proof -
    from that MessageFolderInfo_from_db [of st p reg] obtain st' where
      "MessageFolderInfo (Some p) st = (Inr \<lparr>path_of = p, config_of = next_ref st\<rparr>, st')"
      and "heap st' = (heap st)(next_ref st := reg)"
      by blast
    with assms show ?thesis by (auto simp: registry_of_def)
  qed
  have nw: "registry_of st1 a = empty_registry \<and>
            lookup (fsys st1) (join p ''.db'') = Some (File (Reg empty_registry))"
    if "FOLDER_CACHE st p = None \<and> lookup (fsys st) (join p ''.db'') = None"
    using that assms by (intro MessageFolderInfo_no_db) simp_all
  from c m sh ld nw show ?thesis by blast
qed

theorem folder_cache_shared_witness:
  "fst (MessageFolderInfo (Some ''/m/Inbox'') cold_state) = Inr inbox_info \<and>
   fst (MessageFolderInfo (Some ''/m/Inbox'')
          (run_all [SetProp inbox_info ''a.xml'' ''read'' ''True'',
                    Delete inbox_info ''/m/Inbox/a.xml'',
                    Rename inbox_info ''Old'']
             (snd (MessageFolderInfo (Some ''/m/Inbox'') cold_state)))) = Inr inbox_info \<and>
   FOLDER_CACHE cold_state ''/m/Inbox'' = None \<and>
   lookup (fsys cold_state) (join ''/m/Inbox'' ''.db'') = Some (File (Reg inbox_registry)) \<and>
   registry_of (snd (MessageFolderInfo (Some ''/m/Inbox'') cold_state)) inbox_info
     = inbox_registry"
proof -
  let ?st1 = "snd (MessageFolderInfo (Some ''/m/Inbox'') cold_state)"
  have f: "fst (MessageFolderInfo (Some ''/m/Inbox'') cold_state) = Inr inbox_info"
    by code_simp
  then have e: "MessageFolderInfo (Some ''/m/Inbox'') cold_state = (Inr inbox_info, ?st1)"
    by (metis prod.collapse)
  have i: "\<lparr>path_of = ''/m/Inbox'', config_of = config_of inbox_info\<rparr> = inbox_info"
    by (simp add: inbox_info_def)
  let ?ops = "[SetProp inbox_info ''a.xml'' ''read'' ''True'',
               Delete inbox_info ''/m/Inbox/a.xml'', Rename inbox_info ''Old'']"
  have "MessageFolderInfo (Some ''/m/Inbox'') (run_all ?ops ?st1) =
          (Inr \<lparr>path_of = ''/m/Inbox'', config_of = config_of inbox_info\<rparr>,
           run_all ?ops ?st1)"
    by (rule folder_cache_shared [OF e, of ?ops, THEN conjunct2, THEN conjunct1])
  then have g: "fst (MessageFolderInfo (Some ''/m/Inbox'') (run_all ?ops ?st1)) = Inr inbox_info"
    by (simp only: fst_conv i)
  have n: "FOLDER_CACHE cold_state ''/m/Inbox'' = None"
    by (simp add: cold_state_def)
  have l: "lookup (fsys cold_state) (join ''/m/Inbox'' ''.db'') = Some (File (Reg inbox_registry))"
    by (simp add: cold_state_def inbox_fs_def lookup_def join_def)
  have "FOLDER_CACHE cold_state ''/m/Inbox'' = None \<and>
        lookup (fsys cold_state) (join ''/m/Inbox'' ''.db'') = Some (File (Reg inbox_registry))
          \<longrightarrow> registry_of ?st1 inbox_info = inbox_registry"
    by (rule folder_cache_shared [OF e, of _ _ _ inbox_registry,
          THEN conjunct2, THEN conjunct2, THEN conjunct2, THEN conjunct1])
  with n l have r: "registry_of ?st1 inbox_info = inbox_registry" by blast
  from f g n l r show ?thesis by (simp only: simp_thms)
qed

section \<open>Well-formed message stores\<close>

text \<open>
  A folder path is plain when it is written without a trailing separator, a name is
  simple when it is a single non-empty path component. In a well-formed store every entry
  called \<open>.db\<close> is a registry file, as the module leaves it.
\<close>

definition plain_path :: "string \<Rightarrow> bool" where
  "plain_path p = (p \<noteq> [] \<and> last p \<noteq> CHR ''/'')"

definition simple_name :: "string \<Rightarrow> bool" where
  "simple_name n = (n \<noteq> [] \<and> CHR ''/'' \<notin> set n)"

definition is_registry_file :: "node \<Rightarrow> bool" where
  "is_registry_file n = (case n of File (Reg r) \<Rightarrow> True | _ \<Rightarrow> False)"

definition db_ok :: "filesystem \<Rightarrow> bool" where
  "db_ok fs = list_all (\<lambda>(k, n). basename k \<noteq> ''.db'' \<or> is_registry_file n) fs"

definition db_frame :: "filesystem \<Rightarrow> filesystem \<Rightarrow> bool" where
  "db_frame fs fs' = (\<forall>q. basename q \<noteq> ''.db'' \<longrightarrow> lookup fs' q = lookup fs q)"

lemma db_frame_refl: "db_frame fs fs"
  by (simp add: db_frame_def)

lemma db_frame_trans: "db_frame fs fs1 \<Longrightarrow> db_frame fs1 fs2 \<Longrightarrow> db_frame fs fs2"
  by (simp add: db_frame_def)

lemma join_plain: "plain_path p \<Longrightarrow> simple_name n \<Longrightarrow> join p n = p @ CHR ''/'' # n"
  by (cases n) (auto simp: join_def plain_path_def simple_name_def)

lemma plain_join: "simple_name n \<Longrightarrow> plain_path (join p n)"
proof -
  assume n: "simple_name n"
  then have "last n \<in> set n" by (simp add: simple_name_def)
  moreover from n have "CHR ''/'' \<notin> set n" by (simp add: simple_name_def)
  ultimately have l: "last n \<noteq> CHR ''/''" by metis
  from n have "join p n \<noteq> [] \<and> last (join p n) = last n"
    by (cases n) (auto simp: join_def simple_name_def)
  with l show ?thesis by (simp add: plain_path_def)
qed

lemma simple_db: "simple_name ''.db''"
  by (simp add: simple_name_def)

lemma basename_join_simple: "simple_name n \<Longrightarrow> basename (join p n) = n"
  by (simp add: simple_name_def basename_join)

lemma dirname_append_sep:
  assumes "plain_path p" and "CHR ''/'' \<notin> set n"
  shows "dirname (p @ CHR ''/'' # n) = p"
proof -
  let ?P = "\<lambda>c. c \<noteq> CHR ''/''"
  from assms(2) have "dropWhile ?P (rev n @ CHR ''/'' # rev p) = CHR ''/'' # rev p"
    by (subst dropWhile_append2) auto
  then have h: "rev (dropWhile ?P (rev (p @ CHR ''/'' # n))) = p @ ''/''"
    by simp
  from assms(1) obtain q c where p: "p = q @ [c]" and c: "c \<noteq> CHR ''/''"
    by (auto simp: plain_path_def) (metis append_butlast_last_id)
  then have "rstrip_sep (p @ ''/'') = p"
    by (simp add: rstrip_sep_def)
  moreover from p c have "\<not> list_all (\<lambda>c. c = CHR ''/'') (p @ ''/'')"
    by simp
  ultimately show ?thesis
    unfolding dirname_def h by (simp add: Let_def)
qed

lemma dirname_join: "plain_path p \<Longrightarrow> simple_name n \<Longrightarrow> dirname (join p n) = p"
  by (simp add: join_plain dirname_append_sep simple_name_def)

lemma db_ok_lookup:
  assumes "db_ok fs" and "lookup fs q = Some n" and "basename q = ''.db''"
  shows "is_registry_file n"
proof -
  from assms(2) have "(q, n) \<in> set fs"
    by (simp add: lookup_def map_of_SomeD)
  with assms(1,3) show ?thesis
    by (auto simp: db_ok_def list_all_iff)
qed

lemma set_update_subset: "set (AList.update k v al) \<subseteq> insert (k, v) (set al)"
  by (induction al) auto

lemma db_ok_update:
  assumes "db_ok fs" and "basename p \<noteq> ''.db'' \<or> is_registry_file v"
  shows "db_ok (AList.update p v fs)"
  using assms set_update_subset [of p v fs]
  by (auto simp: db_ok_def list_all_iff)

lemma isdir_frame:
  assumes "db_ok fs" and "db_ok fs'" and "db_frame fs fs'"
  shows "os_path_isdir fs' q = os_path_isdir fs q"
proof (cases "basename q = ''.db''")
  case True
  have "\<not> os_path_isdir g q" if "db_ok g" for g
    using db_ok_lookup [OF that _ True]
    by (auto simp: os_path_isdir_def is_registry_file_def split: option.splits node.splits)
  with assms(1,2) show ?thesis by simp
next
  case False
  with assms(3) show ?thesis by (simp add: db_frame_def os_path_isdir_def)
qed

lemma basename_db: "basename (join p ''.db'') = ''.db''"
  by (simp add: basename_join_simple simple_db)

lemma config_read_ok:
  assumes "db_ok (fsys st)" and "basename rp = ''.db''"
  shows "\<exists>st'. config_read self rp st = (Inr (), st') \<and> fsys st' = fsys st"
proof (cases "lookup (fsys st) rp")
  case None
  then show ?thesis by (simp add: config_read_def)
next
  case (Some n)
  with assms have "is_registry_file n" by (auto intro: db_ok_lookup)
  with Some show ?thesis
    by (auto simp: config_read_def is_registry_file_def set_registry_def
        split: node.splits content.splits)
qed

lemma write_db_ok:
  assumes "db_ok fs" and "os_path_isdir fs p" and "plain_path p"
  shows "write_file fs (join p ''.db'') (Reg r)
           = Inr (AList.update (join p ''.db'') (File (Reg r)) fs)"
proof (cases "lookup fs (join p ''.db'')")
  case None
  from assms(3) have "dirname (join p ''.db'') = p"
    by (simp only: dirname_join simple_db)
  moreover from assms(3) have "join p ''.db'' \<noteq> []" and "p \<noteq> []"
    by (simp_all add: join_plain simple_db plain_path_def)
  ultimately have "dirname (join p ''.db'') = p" and "join p ''.db'' \<noteq> []" and "p \<noteq> []"
    by simp_all
  with assms(2) have "parent_errno fs (join p ''.db'') = None"
    by (auto simp: parent_errno_def os_path_isdir_def split: option.splits node.splits)
  with None show ?thesis by (simp add: write_file_def)
next
  case (Some n)
  with assms(1) have "is_registry_file n"
    by (auto intro: db_ok_lookup simp: basename_db)
  with Some show ?thesis
    by (auto simp: write_file_def is_registry_file_def split: node.splits)
qed

lemma db_update_frame:
  "basename p = ''.db'' \<Longrightarrow> db_frame fs (AList.update p v fs)"
  by (auto simp: db_frame_def lookup_update)

lemma save_ok:
  assumes "db_ok (fsys st)" and "os_path_isdir (fsys st) (path_of self)"
    and "plain_path (path_of self)"
  shows "\<exists>st'. save self st = (Inr (), st') \<and> db_ok (fsys st') \<and>
           db_frame (fsys st) (fsys st') \<and> FOLDER_CACHE st' = FOLDER_CACHE st"
proof -
  let ?p = "join (path_of self) ''.db''"
  let ?fs = "AList.update ?p (File (Reg (registry_of st self))) (fsys st)"
  have "save self st = (Inr (), st\<lparr>fsys := ?fs\<rparr>)"
    using write_db_ok [OF assms] by (simp add: save_def Let_def)
  moreover have "db_ok ?fs"
    using assms(1) by (rule db_ok_update) (simp add: is_registry_file_def)
  moreover have "db_frame (fsys st) ?fs"
    by (rule db_update_frame) (rule basename_db)
  ultimately show ?thesis by simp
qed

text \<open>
  In a well-formed store the constructor succeeds for every plain path of a directory,
  and it touches nothing but the \<open>.db\<close> file of that directory.
\<close>

lemma MessageFolderInfo_ok:
  assumes "db_ok (fsys st)" and "os_path_isdir (fsys st) p" and "plain_path p"
  shows "\<exists>a st'. MessageFolderInfo (Some p) st = (Inr a, st') \<and> path_of a = p \<and>
           db_ok (fsys st') \<and> db_frame (fsys st) (fsys st')"
proof (cases "FOLDER_CACHE st p")
  case (Some r)
  with assms(1) show ?thesis
    by (simp add: MessageFolderInfo_def db_frame_refl)
next
  case None
  let ?self = "\<lparr>path_of = p, config_of = next_ref st\<rparr>"
  let ?st1 = "st\<lparr>heap := (heap st)(next_ref st := empty_registry),
                  next_ref := Suc (next_ref st)\<rparr>"
  let ?rd = "if os_path_exists (fsys ?st1) (join p ''.db'')
             then config_read ?self (join p ''.db'') ?st1 else (Inr (), ?st1)"
  have "\<exists>st2. ?rd = (Inr (), st2) \<and> fsys st2 = fsys st"
    using config_read_ok [of ?st1 "join p ''.db''" ?self] assms(1)
    by (auto simp: basename_db)
  then obtain st2 where rd: "?rd = (Inr (), st2)" and f2: "fsys st2 = fsys st"
    by blast
  from save_ok [of st2 ?self] assms f2 obtain st3 where
    sv: "save ?self st2 = (Inr (), st3)" and ok: "db_ok (fsys st3)"
    and fr: "db_frame (fsys st) (fsys st3)"
    by auto
  from None rd sv have "MessageFolderInfo (Some p) st =
      (Inr ?self, st3\<lparr>FOLDER_CACHE := (FOLDER_CACHE st3)(p \<mapsto> next_ref st)\<rparr>)"
    by (simp add: MessageFolderInfo_def Let_def)
  with ok fr show ?thesis by simp
qed

section \<open>Listing a folder\<close>

lemma glob_star_entry:
  assumes "e \<in> set (glob_star fs d)"
  shows "\<exists>n. simple_name n \<and> e = join (dirname (join d ''*'')) n \<and> lookup fs e \<noteq> None"
proof -
  let ?dir = "dirname (join d ''*'')"
  from assms obtain n where n: "n \<in> set (listdir fs ?dir)" and e: "e = join ?dir n"
    by (auto simp: glob_star_def Let_def)
  from n obtain k where k: "k \<in> set (map fst fs)" and b: "basename k \<noteq> []"
    and j: "k = join ?dir (basename k)" and nk: "n = basename k"
    by (auto simp: listdir_def split: if_splits)
  from b nk have "simple_name n"
    by (simp add: simple_name_def basename_no_sep)
  moreover from k have "lookup fs k \<noteq> None"
    by (simp add: lookup_def map_of_eq_None_iff)
  ultimately show ?thesis using e j nk by auto
qed

lemma glob_star_plain: "e \<in> set (glob_star fs d) \<Longrightarrow> plain_path e"
  using glob_star_entry [of e fs d] by (auto simp: plain_join)


lemma subfolders_loop_ok:
  assumes "db_ok (fsys st)" and "\<forall>e \<in> set es. plain_path e"
  shows "\<exists>subs st'. subfolders_loop es acc st = (Inr subs, st') \<and>
           map path_of subs = map path_of acc @
             filter (\<lambda>e. e \<noteq> ''.'' \<and> e \<noteq> ''..'' \<and> os_path_isdir (fsys st) e) es \<and>
           db_ok (fsys st') \<and> db_frame (fsys st) (fsys st')"
  using assms
proof (induction es arbitrary: acc st)
  case Nil
  then show ?case by (simp add: db_frame_refl)
next
  case (Cons e es)
  let ?keep = "\<lambda>s x. x \<noteq> ''.'' \<and> x \<noteq> ''..'' \<and> os_path_isdir (fsys s) x"
  show ?case
  proof (cases "?keep st e")
    case False
    from Cons.IH [of st acc] Cons.prems obtain subs st' where
      "subfolders_loop es acc st = (Inr subs, st')"
      "map path_of subs = map path_of acc @ filter (?keep st) es"
      "db_ok (fsys st')" "db_frame (fsys st) (fsys st')"
      by auto
    with False show ?thesis by auto
  next
    case True
    from Cons.prems have pe: "plain_path e" by simp
    from MessageFolderInfo_ok [of st e] Cons.prems(1) True pe obtain a st1 where
      m: "MessageFolderInfo (Some e) st = (Inr a, st1)" and pa: "path_of a = e"
      and ok1: "db_ok (fsys st1)" and fr1: "db_frame (fsys st) (fsys st1)"
      by auto
    from Cons.IH [of st1 "acc @ [a]"] ok1 Cons.prems(2) obtain subs st' where
      l: "subfolders_loop es (acc @ [a]) st1 = (Inr subs, st')"
      and p: "map path_of subs = map path_of (acc @ [a]) @ filter (?keep st1) es"
      and ok: "db_ok (fsys st')" and fr: "db_frame (fsys st1) (fsys st')"
      by auto
    have "?keep st1 = ?keep st"
      using isdir_frame [OF Cons.prems(1) ok1 fr1] by simp
    with p pa have "map path_of subs = map path_of acc @ filter (?keep st) (e # es)"
      using True by simp
    moreover from True m l have "subfolders_loop (e # es) acc st = (Inr subs, st')"
      by simp
    moreover from fr1 fr have "db_frame (fsys st) (fsys st')"
      by (rule db_frame_trans)
    ultimately show ?thesis using ok by blast
  qed
qed

text \<open>
  In a well-formed store \<open>subfolders()\<close> returns an instance for each directory that the
  pattern lists, in sorted order.
\<close>

lemma subfolders_ok:
  assumes "db_ok (fsys st)"
  shows "\<exists>subs st'. subfolders self st = (Inr subs, st') \<and>
           map path_of subs =
             filter (\<lambda>e. e \<noteq> ''.'' \<and> e \<noteq> ''..'' \<and> os_path_isdir (fsys st) e)
               (sort (glob_star (fsys st) (path_of self))) \<and>
           db_ok (fsys st') \<and> db_frame (fsys st) (fsys st')"
proof -
  have "\<forall>e \<in> set (sort (glob_star (fsys st) (path_of self))). plain_path e"
    by (simp add: glob_star_plain)
  from subfolders_loop_ok [OF assms this, of "[]"] show ?thesis
    by (simp add: subfolders_def)
qed

section \<open>Creating folders\<close>


lemma join_parent:
  assumes "plain_path p" and "simple_name n"
  shows "dirname (join p n) = p" and "join p n \<noteq> []" and "p \<noteq> []"
proof -
  show "dirname (join p n) = p" using assms by (rule dirname_join)
  show "join p n \<noteq> []" using assms by (simp add: join_plain)
  show "p \<noteq> []" using assms(1) by (simp add: plain_path_def)
qed

lemma create_subfolder_ok:
  assumes "db_ok (fsys st)" and "os_path_isdir (fsys st) (path_of self)"
    and "plain_path (path_of self)" and "simple_name n" and "n \<noteq> ''.db''"
    and "\<not> os_path_isfile (fsys st) (join (path_of self) n)"
  shows "\<exists>sub st'. create_subfolder self n st = (Inr sub, st') \<and>
           path_of sub = join (path_of self) n \<and> db_ok (fsys st') \<and>
           os_path_isdir (fsys st') (join (path_of self) n) \<and>
           (\<forall>q. basename q \<noteq> ''.db'' \<and> q \<noteq> join (path_of self) n
                 \<longrightarrow> lookup (fsys st') q = lookup (fsys st) q)"
proof -
  let ?p = "join (path_of self) n"
  have bn: "basename ?p = n" using assms(4) by (rule basename_join_simple)
  have pp: "plain_path ?p" using assms(4) by (rule plain_join)
  show ?thesis
  proof (cases "os_path_exists (fsys st) ?p")
    case True
    with assms(6) have d: "os_path_isdir (fsys st) ?p"
      by (auto simp: os_path_exists_def os_path_isfile_def os_path_isdir_def
          split: option.splits node.splits)
    from MessageFolderInfo_ok [OF assms(1) d pp] obtain a st' where
      m: "MessageFolderInfo (Some ?p) st = (Inr a, st')" and pa: "path_of a = ?p"
      and ok: "db_ok (fsys st')" and fr: "db_frame (fsys st) (fsys st')"
      by blast
    from True m have "create_subfolder self n st = (Inr a, st')"
      by (simp add: create_subfolder_def os_mkdir_def Let_def)
    moreover from d have "os_path_isdir (fsys st') ?p"
      using isdir_frame [OF assms(1) ok fr] by simp
    ultimately show ?thesis using pa ok fr by (auto simp: db_frame_def)
  next
    case False
    let ?fs1 = "AList.update ?p Dir (fsys st)"
    let ?st1 = "st\<lparr>fsys := ?fs1\<rparr>"
    note join_parent [OF assms(3,4)]
    with assms(2) have "parent_errno (fsys st) ?p = None"
      by (auto simp: parent_errno_def os_path_isdir_def split: option.splits node.splits)
    with False have mk: "os_mkdir (fsys st) ?p = Inr ?fs1"
      by (simp add: os_mkdir_def)
    have ok1: "db_ok (fsys ?st1)"
      using assms(1,5) bn by (simp add: db_ok_update)
    have d1: "os_path_isdir (fsys ?st1) ?p"
      by (simp add: os_path_isdir_def lookup_update)
    from MessageFolderInfo_ok [OF ok1 d1 pp] obtain a st' where
      m: "MessageFolderInfo (Some ?p) ?st1 = (Inr a, st')" and pa: "path_of a = ?p"
      and ok: "db_ok (fsys st')" and fr: "db_frame (fsys ?st1) (fsys st')"
      by blast
    from mk m have "create_subfolder self n st = (Inr a, st')"
      by (simp add: create_subfolder_def Let_def)
    moreover from d1 have "os_path_isdir (fsys st') ?p"
      using isdir_frame [OF ok1 ok fr] by simp
    moreover have "lookup (fsys st') q = lookup (fsys st) q"
      if "basename q \<noteq> ''.db'' \<and> q \<noteq> ?p" for q
      using that fr by (simp add: db_frame_def lookup_update)
    ultimately show ?thesis using pa ok by blast
  qed
qed

lemma split_sep_simple: "CHR ''/'' \<notin> set n \<Longrightarrow> split_sep n = [n]"
  by (induction n) auto

text \<open>
  A folder named by a single component is created directly below the root, whether or
  not a directory of that name is there already.
\<close>

lemma create_folder_impl_simple_ok:
  assumes "db_ok (fsys st)" and "os_path_isdir (fsys st) (path_of root)"
    and "plain_path (path_of root)" and "simple_name n" and "n \<noteq> ''.db''"
    and "\<not> os_path_isfile (fsys st) (join (path_of root) n)"
  shows "\<exists>sub st'. create_folder_impl root n st = (Inr (Some sub), st') \<and>
           path_of sub = join (path_of root) n \<and> db_ok (fsys st') \<and>
           os_path_isdir (fsys st') (join (path_of root) n) \<and>
           (\<forall>q. basename q \<noteq> ''.db'' \<and> q \<noteq> join (path_of root) n
                 \<longrightarrow> lookup (fsys st') q = lookup (fsys st) q)"
proof -
  from assms(4) have s: "split_sep n = [n]" and b: "basename n = n"
    by (simp_all add: simple_name_def split_sep_simple basename_simple)
  from create_subfolder_ok [OF assms] obtain sub st' where
    c: "create_subfolder root n st = (Inr sub, st')"
    and r: "path_of sub = join (path_of root) n" "db_ok (fsys st')"
      "os_path_isdir (fsys st') (join (path_of root) n)"
      "\<forall>q. basename q \<noteq> ''.db'' \<and> q \<noteq> join (path_of root) n
           \<longrightarrow> lookup (fsys st') q = lookup (fsys st) q"
    by blast
  from c s b have "create_folder_impl root n st = (Inr (Some sub), st')"
    by (simp add: create_folder_impl_def)
  with r show ?thesis by blast
qed


text \<open>
  A message store under \<open>/c/messages\<close> that holds the folder \<open>Drafts\<close>, with the instance of
  the root folder already constructed.
\<close>

definition store_fs :: filesystem where
  "store_fs =
     [(''/'', Dir), (''/c'', Dir), (''/c/messages'', Dir),
      (''/c/messages/.db'', File (Reg empty_registry)),
      (''/c/messages/Drafts'', Dir)]"

definition store_state :: state where
  "store_state =
     \<lparr>fsys = store_fs, heap = (\<lambda>r. empty_registry), next_ref = 1,
      FOLDER_CACHE = [''/c/messages'' \<mapsto> 0]\<rparr>"

definition root_info :: folder_info where
  "root_info = \<lparr>path_of = ''/c/messages'', config_of = 0\<rparr>"





text \<open>
  When the intermediate folder is missing, the loop leaves \<open>info\<close> at \<open>None\<close> and the call
  of \<open>create_subfolder\<close> on it raises \<open>AttributeError\<close>, which is not an \<open>OSError\<close> and so
  is not turned into \<open>FolderError\<close>.
\<close>

lemma create_folder_missing_intermediate:
  "fst (create_folder_impl root_info ''Nope/X'' store_state) = Inl AttributeError"
  by code_simp



section \<open>Ensuring the default folders\<close>

text \<open>
  Between two states of the file system, entries other than \<open>.db\<close> files are unchanged
  or are directories that did not exist before.
\<close>

definition grows :: "filesystem \<Rightarrow> filesystem \<Rightarrow> bool" where
  "grows fs fs' =
     (\<forall>q. basename q \<noteq> ''.db'' \<longrightarrow>
          lookup fs' q = lookup fs q \<or> (lookup fs q = None \<and> lookup fs' q = Some Dir))"

lemma grows_refl: "grows fs fs"
  by (simp add: grows_def)

lemma grows_trans: "grows fs fs1 \<Longrightarrow> grows fs1 fs2 \<Longrightarrow> grows fs fs2"
  unfolding grows_def by (metis option.distinct(1))

lemma db_frame_grows: "db_frame fs fs' \<Longrightarrow> grows fs fs'"
  by (simp add: db_frame_def grows_def)

lemma dir_not_db:
  assumes "db_ok fs" and "os_path_isdir fs q"
  shows "basename q \<noteq> ''.db''"
proof
  assume "basename q = ''.db''"
  with assms show False
    using db_ok_lookup [of fs q]
    by (auto simp: os_path_isdir_def is_registry_file_def split: option.splits node.splits)
qed

lemma grows_isdir:
  assumes "db_ok fs" and "grows fs fs'" and "os_path_isdir fs q"
  shows "os_path_isdir fs' q"
proof -
  from assms(1,3) have "basename q \<noteq> ''.db''" by (rule dir_not_db)
  with assms(2) have "lookup fs' q = lookup fs q \<or> (lookup fs q = None \<and> lookup fs' q = Some Dir)"
    by (simp add: grows_def)
  with assms(3) show ?thesis by (auto simp: os_path_isdir_def)
qed

lemma grows_not_file:
  assumes "grows fs fs'" and "basename q \<noteq> ''.db''" and "\<not> os_path_isfile fs q"
  shows "\<not> os_path_isfile fs' q"
proof -
  from assms(1,2)
  have "lookup fs' q = lookup fs q \<or> (lookup fs q = None \<and> lookup fs' q = Some Dir)"
    by (simp add: grows_def)
  with assms(3) show ?thesis by (auto simp: os_path_isfile_def)
qed

lemma mkdir_frame_grows:
  assumes "\<forall>q. basename q \<noteq> ''.db'' \<and> q \<noteq> p \<longrightarrow> lookup fs' q = lookup fs q"
    and "os_path_isdir fs' p" and "\<not> os_path_isfile fs p"
  shows "grows fs fs'"
  unfolding grows_def
proof (intro allI impI)
  fix q assume b: "basename q \<noteq> ''.db''"
  show "lookup fs' q = lookup fs q \<or> (lookup fs q = None \<and> lookup fs' q = Some Dir)"
  proof (cases "q = p")
    case False
    with assms(1) b show ?thesis by simp
  next
    case True
    with assms(2,3) show ?thesis
      by (auto simp: os_path_isdir_def os_path_isfile_def split: option.splits node.splits)
  qed
qed

lemma ensure_loop_ok:
  assumes "db_ok (fsys st)" and "os_path_isdir (fsys st) (path_of root)"
    and "plain_path (path_of root)"
    and "\<forall>n \<in> set names. simple_name n \<and> n \<noteq> ''.db'' \<and>
                          \<not> os_path_isfile (fsys st) (join (path_of root) n)"
  shows "\<exists>st'. ensure_loop root names st = (Inr (), st') \<and> db_ok (fsys st') \<and>
           grows (fsys st) (fsys st') \<and>
           (\<forall>n \<in> set names. os_path_isdir (fsys st') (join (path_of root) n))"
  using assms
proof (induction names arbitrary: st)
  case Nil
  then show ?case by (simp add: grows_refl)
next
  case (Cons n rest)
  let ?R = "path_of root"
  from Cons.prems(4) have sn: "simple_name n" and nd: "n \<noteq> ''.db''"
    and nf: "\<not> os_path_isfile (fsys st) (join ?R n)"
    by simp_all
  from create_folder_impl_simple_ok [OF Cons.prems(1,2,3) sn nd nf] obtain sub st1 where
    c: "create_folder_impl root n st = (Inr (Some sub), st1)"
    and ok1: "db_ok (fsys st1)" and d1: "os_path_isdir (fsys st1) (join ?R n)"
    and fr: "\<forall>q. basename q \<noteq> ''.db'' \<and> q \<noteq> join ?R n
                \<longrightarrow> lookup (fsys st1) q = lookup (fsys st) q"
    by blast
  from fr d1 nf have g1: "grows (fsys st) (fsys st1)" by (rule mkdir_frame_grows)
  from subfolders_ok [OF ok1, of sub] obtain subs st2 where
    s: "subfolders sub st1 = (Inr subs, st2)"
    and ok2: "db_ok (fsys st2)" and fr2: "db_frame (fsys st1) (fsys st2)"
    by blast
  from fr2 have g12: "grows (fsys st1) (fsys st2)" by (rule db_frame_grows)
  from g1 g12 have g2: "grows (fsys st) (fsys st2)" by (rule grows_trans)
  have r2: "os_path_isdir (fsys st2) ?R"
    using Cons.prems(1) g2 Cons.prems(2) by (rule grows_isdir)
  have rest2: "\<forall>m \<in> set rest. simple_name m \<and> m \<noteq> ''.db'' \<and>
                 \<not> os_path_isfile (fsys st2) (join ?R m)"
  proof
    fix m assume m: "m \<in> set rest"
    with Cons.prems(4) have sm: "simple_name m" and md: "m \<noteq> ''.db''"
      and mf: "\<not> os_path_isfile (fsys st) (join ?R m)"
      by simp_all
    from sm md have "basename (join ?R m) \<noteq> ''.db''"
      by (simp add: basename_join_simple)
    with g2 mf have "\<not> os_path_isfile (fsys st2) (join ?R m)"
      by (intro grows_not_file [of "fsys st" "fsys st2"]) simp_all
    with sm md show "simple_name m \<and> m \<noteq> ''.db'' \<and>
                     \<not> os_path_isfile (fsys st2) (join ?R m)"
      by simp
  qed
  from Cons.IH [OF ok2 r2 Cons.prems(3) rest2] obtain st' where
    l: "ensure_loop root rest st2 = (Inr (), st')" and ok: "db_ok (fsys st')"
    and g: "grows (fsys st2) (fsys st')"
    and dr: "\<forall>m \<in> set rest. os_path_isdir (fsys st') (join ?R m)"
    by blast
  from c s l have "ensure_loop root (n # rest) st = (Inr (), st')" by simp
  moreover from g2 g have "grows (fsys st) (fsys st')" by (rule grows_trans)
  moreover have "os_path_isdir (fsys st') (join ?R n)"
  proof -
    from ok1 g12 d1 have "os_path_isdir (fsys st2) (join ?R n)" by (rule grows_isdir)
    with ok2 g show ?thesis by (rule grows_isdir)
  qed
  ultimately show ?case using ok dr by auto
qed

text \<open>
  The store is ready for the default folders when the configuration directory exists,
  its \<open>.db\<close> entries are registry files, and neither \<open>messages\<close> in it nor one of the five
  default names in \<open>messages\<close> is taken by a regular file.
\<close>

definition store_ready :: "string \<Rightarrow> filesystem \<Rightarrow> bool" where
  "store_ready config_dir fs =
     (db_ok fs \<and> plain_path config_dir \<and> os_path_isdir fs config_dir \<and>
      \<not> os_path_isfile fs (join config_dir ''messages'') \<and>
      list_all (\<lambda>n. \<not> os_path_isfile fs (join (join config_dir ''messages'') n))
        BASE_FOLDERS)"

text \<open>A configuration directory \<open>/c\<close> before the first start, and two damaged stores.\<close>

definition fresh_state :: state where
  "fresh_state =
     \<lparr>fsys = [(''/'', Dir), (''/c'', Dir)], heap = (\<lambda>r. empty_registry), next_ref = 0,
      FOLDER_CACHE = Map.empty\<rparr>"

definition squatted_state :: state where
  "squatted_state =
     fresh_state\<lparr>fsys := [(''/'', Dir), (''/c'', Dir), (''/c/messages'', Dir),
                           (''/c/messages/Inbox'', File (Msg ''notes''))]\<rparr>"

definition damaged_state :: state where
  "damaged_state =
     fresh_state\<lparr>fsys := [(''/'', Dir), (''/c'', Dir), (''/c/messages'', Dir),
                           (''/c/messages/.db'', File (Reg empty_registry)),
                           (''/c/messages/Inbox'', Dir),
                           (''/c/messages/Inbox/.db'', File (Msg ''<xml/>'')),
                           (''/c/messages/Outbox'', Dir), (''/c/messages/Sent'', Dir),
                           (''/c/messages/Trash'', Dir), (''/c/messages/Drafts'', Dir)]\<rparr>"

lemma base_folders_simple:
  "n \<in> set BASE_FOLDERS \<Longrightarrow> simple_name n \<and> n \<noteq> ''.db''"
  by (auto simp: BASE_FOLDERS_def simple_name_def)

lemma dir_not_file: "os_path_isdir fs q \<Longrightarrow> \<not> os_path_isfile fs q"
  by (auto simp: os_path_isdir_def os_path_isfile_def split: option.splits node.splits)

lemma folders_path_ok:
  assumes "db_ok (fsys st)" and "plain_path config_dir"
    and "os_path_isdir (fsys st) config_dir"
    and "\<not> os_path_isfile (fsys st) (join config_dir ''messages'')"
  shows "\<exists>st'. folders_path config_dir st = (Inr (join config_dir ''messages''), st') \<and>
           db_ok (fsys st') \<and> grows (fsys st) (fsys st') \<and>
           os_path_isdir (fsys st') (join config_dir ''messages'')"
proof (cases "os_path_isdir (fsys st) (join config_dir ''messages'')")
  case True
  with assms(1) show ?thesis
    by (simp add: folders_path_def grows_refl)
next
  case False
  let ?R = "join config_dir ''messages''"
  let ?fs = "AList.update ?R Dir (fsys st)"
  have sm: "simple_name ''messages''" by (simp add: simple_name_def)
  note jp = join_parent [OF assms(2) sm]
  have bn: "basename ?R = ''messages''" using sm by (rule basename_join_simple)
  from False assms(4) have ne: "\<not> os_path_exists (fsys st) ?R"
    by (auto simp: os_path_exists_def os_path_isdir_def os_path_isfile_def
        split: option.splits node.splits)
  from assms(3) have ex: "os_path_exists (fsys st) config_dir"
    by (auto simp: os_path_exists_def os_path_isdir_def split: option.splits)
  from assms(3) jp have "parent_errno (fsys st) ?R = None"
    by (auto simp: parent_errno_def os_path_isdir_def split: option.splits node.splits)
  with ne have mk: "os_mkdir (fsys st) ?R = Inr ?fs"
    by (simp add: os_mkdir_def)
  have "os_makedirs (fsys st) ?R = os_mkdir (fsys st) ?R"
    using ex jp bn by (subst os_makedirs.simps) (simp add: Let_def)
  with mk False have f: "folders_path config_dir st = (Inr ?R, st\<lparr>fsys := ?fs\<rparr>)"
    by (simp add: folders_path_def Let_def)
  have d: "os_path_isdir ?fs ?R"
    by (simp add: os_path_isdir_def lookup_update)
  have "\<forall>q. basename q \<noteq> ''.db'' \<and> q \<noteq> ?R \<longrightarrow> lookup ?fs q = lookup (fsys st) q"
    by (simp add: lookup_update)
  then have "grows (fsys st) ?fs"
    using d assms(4) by (rule mkdir_frame_grows)
  moreover have "db_ok ?fs"
    using assms(1) bn by (simp add: db_ok_update)
  ultimately show ?thesis using f d by simp
qed

lemma ensure_default_folders_ok:
  assumes "store_ready config_dir (fsys st)"
  shows "\<exists>st'. ensure_default_folders config_dir st = (Inr (), st') \<and>
           store_ready config_dir (fsys st') \<and>
           (\<forall>n \<in> set BASE_FOLDERS.
               os_path_isdir (fsys st') (join (join config_dir ''messages'') n))"
proof -
  let ?R = "join config_dir ''messages''"
  from assms have ok: "db_ok (fsys st)" and pc: "plain_path config_dir"
    and dc: "os_path_isdir (fsys st) config_dir"
    and nr: "\<not> os_path_isfile (fsys st) ?R"
    and nn: "\<forall>n \<in> set BASE_FOLDERS. \<not> os_path_isfile (fsys st) (join ?R n)"
    by (simp_all add: store_ready_def list_all_iff)
  have pr: "plain_path ?R" by (rule plain_join) (simp add: simple_name_def)
  from folders_path_ok [OF ok pc dc nr] obtain st0 where
    f: "folders_path config_dir st = (Inr ?R, st0)" and ok0: "db_ok (fsys st0)"
    and g0: "grows (fsys st) (fsys st0)" and d0: "os_path_isdir (fsys st0) ?R"
    by blast
  from MessageFolderInfo_ok [OF ok0 d0 pr] obtain root st2 where
    m: "MessageFolderInfo (Some ?R) st0 = (Inr root, st2)" and rp: "path_of root = ?R"
    and ok2: "db_ok (fsys st2)" and fr2: "db_frame (fsys st0) (fsys st2)"
    by blast
  from g0 fr2 have g2: "grows (fsys st) (fsys st2)"
    by (auto intro: grows_trans db_frame_grows)
  have d2: "os_path_isdir (fsys st2) (path_of root)"
    using isdir_frame [OF ok0 ok2 fr2] d0 rp by simp
  have names: "\<forall>n \<in> set BASE_FOLDERS. simple_name n \<and> n \<noteq> ''.db'' \<and>
                 \<not> os_path_isfile (fsys st2) (join (path_of root) n)"
  proof
    fix n assume n: "n \<in> set BASE_FOLDERS"
    then have s: "simple_name n \<and> n \<noteq> ''.db''" by (rule base_folders_simple)
    then have "basename (join ?R n) \<noteq> ''.db''" by (simp add: basename_join_simple)
    with g2 nn n have "\<not> os_path_isfile (fsys st2) (join ?R n)"
      by (intro grows_not_file [of "fsys st" "fsys st2"]) simp_all
    with s rp show "simple_name n \<and> n \<noteq> ''.db'' \<and>
                    \<not> os_path_isfile (fsys st2) (join (path_of root) n)"
      by simp
  qed
  from pr rp have pr': "plain_path (path_of root)" by simp
  from ensure_loop_ok [OF ok2 d2 pr' names] obtain st' where
    l: "ensure_loop root BASE_FOLDERS st2 = (Inr (), st')" and ok': "db_ok (fsys st')"
    and g: "grows (fsys st2) (fsys st')"
    and dirs: "\<forall>n \<in> set BASE_FOLDERS. os_path_isdir (fsys st') (join (path_of root) n)"
    by blast
  from f m l have e: "ensure_default_folders config_dir st = (Inr (), st')"
    by (simp add: ensure_default_folders_def)
  from g2 g have gg: "grows (fsys st) (fsys st')" by (rule grows_trans)
  have dc': "os_path_isdir (fsys st') config_dir"
    using ok gg dc by (rule grows_isdir)
  have dr': "os_path_isdir (fsys st') ?R"
    using ok2 g d2 rp by (auto intro: grows_isdir)
  from dirs rp have dirs': "\<forall>n \<in> set BASE_FOLDERS. os_path_isdir (fsys st') (join ?R n)"
    by simp
  have "store_ready config_dir (fsys st')"
    using ok' pc dc' dr' dirs' by (simp add: store_ready_def list_all_iff dir_not_file)
  with e dirs' show ?thesis by blast
qed

text \<open>
  C8 (as stated): after the first construction the five default folders Inbox, Outbox, Sent,
  Trash and Drafts exist as directories under the messages root, and constructing again
  when they exist raises nothing.

  \<open>_ensure_default_folders\<close> swallows \<open>FolderError\<close> whatever its cause, and
  \<open>create_subfolder\<close> swallows errno 17 whether a directory or a regular file has the
  name. So where a regular file is named \<open>Inbox\<close> in the messages root, \<open>os.mkdir\<close>
  fails with errno 17, the constructor of the subfolder fails writing \<open>Inbox/.db\<close> with
  errno 20, \<open>_create_folder\<close> turns that into \<open>FolderError\<close>, and the construction
  returns normally with no directory \<open>Inbox\<close>. And where the five folders exist but the
  \<open>.db\<close> of one of them does not parse, the construction raises \<open>ParsingError\<close> from
  \<open>info.subfolders()\<close> or from the constructor, which is not a \<open>FolderError\<close>.
\<close>

theorem default_folders_not_always_ensured:
  "fst (ensure_default_folders ''/c'' squatted_state) = Inr () \<and>
   \<not> os_path_isdir (fsys (snd (ensure_default_folders ''/c'' squatted_state)))
       ''/c/messages/Inbox'' \<and>
   list_all (\<lambda>n. os_path_isdir (fsys damaged_state) (join ''/c/messages'' n)) BASE_FOLDERS \<and>
   fst (ensure_default_folders ''/c'' damaged_state) = Inl ParsingError"
  by code_simp

text \<open>
  C8 (amended): on a ready store (the configuration directory exists, every \<open>.db\<close>
  entry is a registry file, and no regular file has the name \<open>messages\<close> or the name of a
  default folder) the construction returns normally and the five default folders are
  directories under the messages root afterwards; constructing again from the state
  reached returns normally and leaves them in place, in the same process and, with an
  empty folder cache, in a later one.
\<close>

theorem default_folders_ensured:
  assumes "store_ready config_dir (fsys st)"
  shows "fst (ensure_default_folders config_dir st) = Inr () \<and>
         (\<forall>n \<in> set [''Inbox'', ''Outbox'', ''Sent'', ''Trash'', ''Drafts''].
             os_path_isdir (fsys (snd (ensure_default_folders config_dir st)))
               (join (join config_dir ''messages'') n)) \<and>
         fst (ensure_default_folders config_dir (snd (ensure_default_folders config_dir st)))
           = Inr () \<and>
         (\<forall>n \<in> set [''Inbox'', ''Outbox'', ''Sent'', ''Trash'', ''Drafts''].
             os_path_isdir
               (fsys (snd (ensure_default_folders config_dir
                              (snd (ensure_default_folders config_dir st)))))
               (join (join config_dir ''messages'') n)) \<and>
         fst (ensure_default_folders config_dir
                ((snd (ensure_default_folders config_dir st))\<lparr>FOLDER_CACHE := Map.empty\<rparr>))
           = Inr ()"
proof -
  have b: "set [''Inbox'', ''Outbox'', ''Sent'', ''Trash'', ''Drafts''] = set BASE_FOLDERS"
    by (simp add: BASE_FOLDERS_def)
  from ensure_default_folders_ok [OF assms] obtain st1 where
    e1: "ensure_default_folders config_dir st = (Inr (), st1)"
    and r1: "store_ready config_dir (fsys st1)"
    and d1: "\<forall>n \<in> set BASE_FOLDERS.
               os_path_isdir (fsys st1) (join (join config_dir ''messages'') n)"
    by blast
  from ensure_default_folders_ok [OF r1] obtain st2 where
    e2: "ensure_default_folders config_dir st1 = (Inr (), st2)"
    and d2: "\<forall>n \<in> set BASE_FOLDERS.
               os_path_isdir (fsys st2) (join (join config_dir ''messages'') n)"
    by blast
  from r1 have "store_ready config_dir (fsys (st1\<lparr>FOLDER_CACHE := Map.empty\<rparr>))"
    by simp
  from ensure_default_folders_ok [OF this] obtain st3 where
    e3: "ensure_default_folders config_dir (st1\<lparr>FOLDER_CACHE := Map.empty\<rparr>) = (Inr (), st3)"
    by blast
  from e1 e2 e3 d1 d2 show ?thesis
    unfolding b by simp
qed

theorem default_folders_ensured_witness:
  "store_ready ''/c'' (fsys fresh_state) \<and>
   fst (ensure_default_folders ''/c'' fresh_state) = Inr () \<and>
   os_path_isdir (fsys (snd (ensure_default_folders ''/c'' fresh_state)))
     (join (join ''/c'' ''messages'') ''Inbox'') \<and>
   os_path_isdir (fsys (snd (ensure_default_folders ''/c'' fresh_state)))
     (join (join ''/c'' ''messages'') ''Drafts'') \<and>
   fst (ensure_default_folders ''/c'' (snd (ensure_default_folders ''/c'' fresh_state)))
     = Inr () \<and>
   join (join ''/c'' ''messages'') ''Inbox'' = ''/c/messages/Inbox''"
proof -
  have r: "store_ready ''/c'' (fsys fresh_state)"
    by code_simp
  have j: "join (join ''/c'' ''messages'') ''Inbox'' = ''/c/messages/Inbox''"
    by code_simp
  note t = default_folders_ensured [OF r]
  from t have a: "fst (ensure_default_folders ''/c'' fresh_state) = Inr ()"
    by (rule conjunct1)
  from t have d: "\<forall>n \<in> set [''Inbox'', ''Outbox'', ''Sent'', ''Trash'', ''Drafts''].
             os_path_isdir (fsys (snd (ensure_default_folders ''/c'' fresh_state)))
               (join (join ''/c'' ''messages'') n)"
    by (rule conjunct2 [THEN conjunct1])
  from t have c: "fst (ensure_default_folders ''/c''
                         (snd (ensure_default_folders ''/c'' fresh_state))) = Inr ()"
    by (rule conjunct2 [THEN conjunct2, THEN conjunct1])
  from d have d1: "os_path_isdir (fsys (snd (ensure_default_folders ''/c'' fresh_state)))
     (join (join ''/c'' ''messages'') ''Inbox'')"
    by (rule bspec) simp
  from d have d2: "os_path_isdir (fsys (snd (ensure_default_folders ''/c'' fresh_state)))
     (join (join ''/c'' ''messages'') ''Drafts'')"
    by (rule bspec) simp
  from r a d1 d2 c j show ?thesis
    by (intro conjI)
qed

end
